theory Spec2Isabelle
  imports
    Main
    "HOL-Library.Char_ord"
    "HOL-Library.List_Lexorder"
    "HOL-Library.Product_Lexorder"
    "HOL-Library.Multiset"
begin

section \<open>Text\<close>

text \<open>
  A Python \<open>str\<close> is a sequence of code points. It is modelled as a \<^typ>\<open>string\<close> whose
  characters are the code points below 256, so that \<open>len\<close> is \<^const>\<open>length\<close>, string
  comparison is the lexicographic order on code points, and the letter e-acute of the label
  \<open>T\'el priv\'e\<close> is the single character \<open>0xE9\<close>.
\<close>

definition isspace :: "char \<Rightarrow> bool" where
  \<comment> \<open>\<open>str.isspace\<close>, which is also the class \<open>\s\<close> of \<open>re\<close> on \<open>str\<close> patterns: tab to
      carriage return, the four separators \<open>0x1C..0x1F\<close>, space, NEL and no-break space.\<close>
  "isspace c =
     (let n = (of_char c :: nat)
      in (9 \<le> n \<and> n \<le> 13) \<or> (28 \<le> n \<and> n \<le> 32) \<or> n = 133 \<or> n = 160)"

definition isdecimal :: "char \<Rightarrow> bool" where
  \<comment> \<open>the class \<open>\d\<close>: the decimal digits; below 256 these are \<open>0..9\<close>.\<close>
  "isdecimal c = (let n = (of_char c :: nat) in 48 \<le> n \<and> n \<le> 57)"

definition strip :: "string \<Rightarrow> string" where
  \<comment> \<open>\<open>s.strip()\<close>\<close>
  "strip s = rev (dropWhile isspace (rev (dropWhile isspace s)))"

definition startswith :: "string \<Rightarrow> string \<Rightarrow> bool" where
  "startswith s p = (take (length p) s = p)"

fun contains :: "string \<Rightarrow> string \<Rightarrow> bool" where
  \<comment> \<open>\<open>p in s\<close>: \<open>p\<close> occurs in \<open>s\<close> at some position\<close>
  "contains [] p = (p = [])"
| "contains (c # cs) p = (startswith (c # cs) p \<or> contains cs p)"

fun re_search :: "(string \<Rightarrow> 'a option) \<Rightarrow> string \<Rightarrow> 'a option" where
  \<comment> \<open>\<open>re.search\<close>: the match at the leftmost position where the pattern matches; the
      argument is the matcher of the pattern anchored at the start of its input.\<close>
  "re_search m [] = m []"
| "re_search m (c # cs) = (case m (c # cs) of Some r \<Rightarrow> Some r | None \<Rightarrow> re_search m cs)"

definition literal :: "string \<Rightarrow> string \<Rightarrow> string option" where
  \<comment> \<open>a literal of a pattern: the rest of the input after it\<close>
  "literal p s = (if startswith s p then Some (drop (length p) s) else None)"

section \<open>Fetcher: \<open>ClubScraper.fetch_html_with_curl\<close>\<close>

datatype run_result =
    Completed string          \<comment> \<open>exit status 0, with the captured standard output\<close>
  | CalledProcessError        \<comment> \<open>non-zero exit status (\<open>check=True\<close>)\<close>
  | TimeoutExpired            \<comment> \<open>no answer within 30 seconds\<close>
  | FileNotFoundError         \<comment> \<open>no \<open>curl\<close> on the path\<close>
  | OtherException            \<comment> \<open>any exception that no \<open>except\<close> clause names\<close>

datatype 'a outcome = Returned 'a | Raised

datatype event =
    Invoke "string list"   \<comment> \<open>a call of \<open>subprocess.run\<close> with this command\<close>
  | Sleep int              \<comment> \<open>a call of \<open>time.sleep\<close> with this number of seconds\<close>

type_synonym fetch_trace = "event list"

definition curl_command :: "string list \<Rightarrow> string \<Rightarrow> string \<Rightarrow> string list" where
  "curl_command headers cookie_string url =
     [''curl'', ''--location'', ''--silent'', url]
     @ concat (map (\<lambda>header. [''--header'', header]) headers)
     @ [''--header'', ''Cookie: '' @ cookie_string]"

definition backoff :: "int \<Rightarrow> nat \<Rightarrow> fetch_trace \<Rightarrow> fetch_trace" where
  \<comment> \<open>the end of the loop body: \<open>if attempt < retries: time.sleep((attempt + 1) * 2)\<close>\<close>
  "backoff retries attempt tr =
     (if int attempt < retries then tr @ [Sleep ((int attempt + 1) * 2)] else tr)"

fun fetch_loop ::
  "(nat \<Rightarrow> run_result) \<Rightarrow> string list \<Rightarrow> int \<Rightarrow> nat \<Rightarrow> nat \<Rightarrow> fetch_trace
    \<Rightarrow> string option outcome \<times> fetch_trace" where
  \<comment> \<open>\<open>fetch_loop run command retries attempt k\<close>: the \<open>k\<close> iterations of
      \<open>for attempt in range(retries + 1)\<close> that start at \<open>attempt\<close>, then the final
      \<open>return None\<close>. \<open>run i\<close> is what the \<open>i\<close>-th call of \<open>subprocess.run\<close> does.\<close>
  "fetch_loop run command retries attempt 0 tr = (Returned None, tr)"
| "fetch_loop run command retries attempt (Suc k) tr =
     (let tr1 = tr @ [Invoke command]
      in case run attempt of
           Completed out \<Rightarrow>
             if strip out \<noteq> [] then (Returned (Some out), tr1)
             else fetch_loop run command retries (Suc attempt) k (backoff retries attempt tr1)
         | CalledProcessError \<Rightarrow>
             fetch_loop run command retries (Suc attempt) k (backoff retries attempt tr1)
         | TimeoutExpired \<Rightarrow>
             fetch_loop run command retries (Suc attempt) k (backoff retries attempt tr1)
         | FileNotFoundError \<Rightarrow> (Returned None, tr1)
         | OtherException \<Rightarrow> (Raised, tr1))"

definition fetch_html_with_curl ::
  "(nat \<Rightarrow> run_result) \<Rightarrow> string list \<Rightarrow> string \<Rightarrow> string \<Rightarrow> int
    \<Rightarrow> string option outcome \<times> fetch_trace" where
  "fetch_html_with_curl run headers cookie_string url retries =
     fetch_loop run (curl_command headers cookie_string url) retries 0 (nat (retries + 1)) []"

definition attempts_trace :: "string list \<Rightarrow> int \<Rightarrow> nat \<Rightarrow> nat \<Rightarrow> fetch_trace" where
  \<comment> \<open>what \<open>k\<close> failed iterations starting at \<open>a\<close> leave in the trace (used in the proofs)\<close>
  "attempts_trace command retries a k =
     concat (map (\<lambda>i. Invoke command # (if int i < retries then [Sleep ((int i + 1) * 2)] else []))
       [a..<a + k])"

definition MAX_RETRY_ATTEMPTS :: int where
  "MAX_RETRY_ATTEMPTS = 3"

definition retryable_failure :: "run_result \<Rightarrow> bool" where
  \<comment> \<open>an attempt after which the loop goes on: non-zero exit, timeout, or a body that is
      empty once stripped\<close>
  "retryable_failure r =
     (case r of Completed out \<Rightarrow> strip out = [] | CalledProcessError \<Rightarrow> True
              | TimeoutExpired \<Rightarrow> True | _ \<Rightarrow> False)"

section \<open>Extractor: the parsed document\<close>

text \<open>
  The tree that \<open>BeautifulSoup(html, "html.parser")\<close> builds. \<open>Text\<close> is a string that
  \<open>get_text\<close> keeps: a plain \<open>NavigableString\<close> or a \<open>CData\<close> section. \<open>Other\<close> is a
  string of a class that \<open>get_text\<close> leaves out: a comment, a declaration, a doctype, a
  processing instruction, or the content of a script, style or template element. An element
  has its tag name, the list of its classes (the \<open>class\<close> attribute split at whitespace),
  its other attributes and its children.
\<close>

datatype node =
    Text string
  | Other string
  | Element (tag: string) (classes: "string list") (attrs: "(string \<times> string) list")
      (children: "node list")

fun descendants :: "node \<Rightarrow> node list"
  and descendants_list :: "node list \<Rightarrow> node list" where
  \<comment> \<open>the proper descendants, in document order\<close>
  "descendants (Text s) = []"
| "descendants (Other s) = []"
| "descendants (Element t cl ats cs) = descendants_list cs"
| "descendants_list [] = []"
| "descendants_list (n # ns) = n # descendants n @ descendants_list ns"

fun is_tag :: "string \<Rightarrow> string list \<Rightarrow> node \<Rightarrow> bool" where
  \<comment> \<open>the selector \<open>t.c1.c2\<close>: an element named \<open>t\<close> carrying every class listed\<close>
  "is_tag t cls (Element t' cl ats cs) = (t' = t \<and> set cls \<subseteq> set cl)"
| "is_tag t cls _ = False"

definition select :: "(node \<Rightarrow> bool) \<Rightarrow> node \<Rightarrow> node list" where
  "select p n = filter p (descendants n)"

definition select_one :: "(node \<Rightarrow> bool) \<Rightarrow> node \<Rightarrow> node option" where
  "select_one p n = find p (descendants n)"

definition find_next_sibling :: "(node \<Rightarrow> bool) \<Rightarrow> node list \<Rightarrow> node option" where
  \<comment> \<open>the argument is the list of the siblings that follow the element\<close>
  "find_next_sibling p following = find p following"

fun all_strings :: "node \<Rightarrow> string list"
  and all_strings_list :: "node list \<Rightarrow> string list" where
  \<comment> \<open>\<open>_all_strings(strip=True)\<close>: every string below the node that is a \<open>NavigableString\<close>
      or a \<open>CData\<close>, stripped, those left empty skipped\<close>
  "all_strings (Text s) = (if strip s = [] then [] else [strip s])"
| "all_strings (Other s) = []"
| "all_strings (Element t cl ats cs) = all_strings_list cs"
| "all_strings_list [] = []"
| "all_strings_list (n # ns) = all_strings n @ all_strings_list ns"

fun join :: "string \<Rightarrow> string list \<Rightarrow> string" where
  \<comment> \<open>\<open>sep.join(xs)\<close>\<close>
  "join sep [] = []"
| "join sep [x] = x"
| "join sep (x # y # ys) = x @ sep @ join sep (y # ys)"

definition get_text :: "string \<Rightarrow> node \<Rightarrow> string" where
  \<comment> \<open>\<open>node.get_text(separator=sep, strip=True)\<close>\<close>
  "get_text sep n = join sep (all_strings n)"

section \<open>Extractor: \<open>ClubScraper\<close>\<close>

definition extract_role :: "node \<Rightarrow> string" where
  "extract_role heading_row =
     (case select_one (is_tag ''h5'' []) heading_row of
        Some role_element \<Rightarrow> get_text [] role_element
      | None \<Rightarrow> ''N/A'')"

definition extract_name :: "node \<Rightarrow> string option" where
  "extract_name data_row =
     (case select_one (is_tag ''span'' [''ftName'']) data_row of
        Some name_tag \<Rightarrow> Some (get_text [] name_tag)
      | None \<Rightarrow> None)"

definition quote :: char where
  "quote = CHR 0x27"

definition openMess_here :: "string \<Rightarrow> (string \<times> string) option" where
  \<comment> \<open>the pattern \<open>openMess\('([^']*)',\s*'([^']*)'\)\<close> anchored at the start of the input;
      the groups are (domain, user). Each starred class is followed by a character outside
      it, so the longest run is the only one that can match.\<close>
  "openMess_here s =
     (case literal (''openMess('' @ [quote]) s of
        None \<Rightarrow> None
      | Some s1 \<Rightarrow>
          (case literal (quote # '','') (dropWhile (\<lambda>c. c \<noteq> quote) s1) of
             None \<Rightarrow> None
           | Some s2 \<Rightarrow>
               (case literal [quote] (dropWhile isspace s2) of
                  None \<Rightarrow> None
                | Some s3 \<Rightarrow>
                    (case literal (quote # '')'') (dropWhile (\<lambda>c. c \<noteq> quote) s3) of
                       None \<Rightarrow> None
                     | Some s4 \<Rightarrow>
                         Some (takeWhile (\<lambda>c. c \<noteq> quote) s1,
                               takeWhile (\<lambda>c. c \<noteq> quote) s3)))))"

fun is_openMess_link :: "node \<Rightarrow> bool" where
  \<comment> \<open>the selector \<open>a[href*='javascript:openMess']\<close>\<close>
  "is_openMess_link (Element t cl ats cs) =
     (t = ''a'' \<and> (case map_of ats ''href'' of
                      Some href \<Rightarrow> contains href ''javascript:openMess''
                    | None \<Rightarrow> False))"
| "is_openMess_link _ = False"

fun get_attr :: "node \<Rightarrow> string \<Rightarrow> string \<Rightarrow> string" where
  \<comment> \<open>\<open>tag.get(key, default)\<close>\<close>
  "get_attr (Element t cl ats cs) key dflt = (case map_of ats key of Some v \<Rightarrow> v | None \<Rightarrow> dflt)"
| "get_attr _ key dflt = dflt"

definition extract_email :: "node \<Rightarrow> string" where
  "extract_email data_row =
     (case select_one is_openMess_link data_row of
        Some email_tag \<Rightarrow>
          (case re_search openMess_here (get_attr email_tag ''href'' []) of
             Some (domain, user) \<Rightarrow> user @ ''@'' @ domain
           | None \<Rightarrow> ''N/A'')
      | None \<Rightarrow> ''N/A'')"

definition phone_char :: "char \<Rightarrow> bool" where
  \<comment> \<open>the class \<open>[\d\s\(\)]\<close>\<close>
  "phone_char c = (isdecimal c \<or> isspace c \<or> c = CHR ''('' \<or> c = CHR '')'')"

definition phone_here :: "string \<Rightarrow> string \<Rightarrow> string option" where
  \<comment> \<open>the pattern \<open>label\s*:\s*(\+[\d\s\(\)]+)\<close> anchored at the start of the input; the
      result is group 1. Neither \<open>:\<close> nor \<open>+\<close> is whitespace, so each \<open>\s*\<close> can only
      match the whole run of whitespace; the last class is greedy.\<close>
  "phone_here label s =
     (case literal label s of
        None \<Rightarrow> None
      | Some s1 \<Rightarrow>
          (case literal '':'' (dropWhile isspace s1) of
             None \<Rightarrow> None
           | Some s2 \<Rightarrow>
               (case literal ''+'' (dropWhile isspace s2) of
                  None \<Rightarrow> None
                | Some s3 \<Rightarrow>
                    (if takeWhile phone_char s3 = [] then None
                     else Some (CHR ''+'' # takeWhile phone_char s3)))))"

definition PRIVATE_LABEL :: string where
  "PRIVATE_LABEL = ''T'' @ [CHR 0xE9] @ ''l priv'' @ [CHR 0xE9]"

definition MOBILE_LABEL :: string where
  "MOBILE_LABEL = ''Mobile''"

definition phones_of_text :: "string \<Rightarrow> (string \<rightharpoonup> string)" where
  \<comment> \<open>the body of the \<open>if\<close> of \<open>_extract_phone_numbers\<close>, on the contact text\<close>
  "phones_of_text contact_text =
     (let phones = [''mobile_phone'' \<mapsto> ''N/A'', ''private_phone'' \<mapsto> ''N/A''];
          phones = (case re_search (phone_here PRIVATE_LABEL) contact_text of
                      Some g \<Rightarrow> phones(''private_phone'' \<mapsto> strip g)
                    | None \<Rightarrow> phones);
          phones = (case re_search (phone_here MOBILE_LABEL) contact_text of
                      Some g \<Rightarrow> phones(''mobile_phone'' \<mapsto> strip g)
                    | None \<Rightarrow> phones)
      in phones)"

definition extract_phone_numbers :: "node \<Rightarrow> (string \<rightharpoonup> string)" where
  "extract_phone_numbers data_row =
     (let contact_column_divs = select (is_tag ''div'' [''col-md-6'']) data_row
      in if length contact_column_divs > 1
         then phones_of_text (get_text '' '' (contact_column_divs ! 1))
         else [''mobile_phone'' \<mapsto> ''N/A'', ''private_phone'' \<mapsto> ''N/A''])"

definition extract_trainer_info :: "node \<Rightarrow> node list \<Rightarrow> string \<Rightarrow> (string \<rightharpoonup> string) option" where
  \<comment> \<open>\<open>_extract_trainer_info\<close>; the second argument is the list of the siblings that follow
      the heading row in the document. No step of the body raises on a parsed tree, so the
      \<open>except\<close> branch has no counterpart.\<close>
  "extract_trainer_info heading_row following club_name =
     (case find_next_sibling (is_tag ''div'' [''row'']) following of
        None \<Rightarrow> None
      | Some data_row \<Rightarrow>
          (let role = extract_role heading_row in
           case extract_name data_row of
             None \<Rightarrow> None
           | Some name \<Rightarrow>
               if name = [] then None
               else
                 (let trainer_info =
                        [''club'' \<mapsto> club_name, ''role'' \<mapsto> role, ''name'' \<mapsto> name,
                         ''mobile_phone'' \<mapsto> ''N/A'', ''private_phone'' \<mapsto> ''N/A'',
                         ''email'' \<mapsto> ''N/A''];
                      trainer_info = trainer_info(''email'' \<mapsto> extract_email data_row);
                      phones = extract_phone_numbers data_row;
                      trainer_info = trainer_info ++ phones
                  in Some trainer_info)))"

fun heading_rows :: "bool \<Rightarrow> node list \<Rightarrow> (node \<times> node list) list" where
  \<comment> \<open>\<open>soup.select("div.liste div.row.heading")\<close> over a list of siblings, in document
      order, each match with the siblings that follow it; the flag says whether an ancestor
      is a \<open>div.liste\<close>.\<close>
  "heading_rows inside [] = []"
| "heading_rows inside (Text s # rest) = heading_rows inside rest"
| "heading_rows inside (Other s # rest) = heading_rows inside rest"
| "heading_rows inside (Element t cl ats cs # rest) =
     (if inside \<and> is_tag ''div'' [''row'', ''heading''] (Element t cl ats cs)
      then [(Element t cl ats cs, rest)] else [])
     @ heading_rows (inside \<or> is_tag ''div'' [''liste''] (Element t cl ats cs)) cs
     @ heading_rows inside rest"

definition parse_trainer_data ::
  "(string \<Rightarrow> node list) \<Rightarrow> string \<Rightarrow> string \<Rightarrow> (string \<rightharpoonup> string) list" where
  \<comment> \<open>the first argument is the parser, \<open>BeautifulSoup(_, "html.parser")\<close>, giving the
      top-level nodes of the document\<close>
  "parse_trainer_data soup_of html_content club_name =
     (if html_content = [] then []
      else List.map_filter (\<lambda>(heading_row, following).
             extract_trainer_info heading_row following club_name)
             (heading_rows False (soup_of html_content)))"

definition CSV_FIELDNAMES :: "string list" where
  "CSV_FIELDNAMES = [''club'', ''role'', ''name'', ''mobile_phone'', ''private_phone'', ''email'']"

section \<open>Aggregator: tables\<close>

text \<open>
  A cell of a \<open>pandas\<close> table is missing (\<open>NaN\<close>), a string, or a scalar of another type
  (a number or a boolean that \<open>read_csv\<close> inferred), kept as the text that \<open>str\<close> gives for
  it. A table has its column labels and its rows, each row a list of cells in column order.
\<close>

datatype cell = NaN | Str string | Obj string

record dataframe =
  columns :: "string list"
  rows :: "cell list list"

definition rectangular :: "dataframe \<Rightarrow> bool" where
  \<comment> \<open>what every table that \<open>read_csv\<close> builds satisfies: distinct column labels and one
      cell per column in each row\<close>
  "rectangular df =
     (distinct (columns df) \<and> list_all (\<lambda>r. length r = length (columns df)) (rows df))"

definition df_empty :: "dataframe \<Rightarrow> bool" where
  \<comment> \<open>\<open>df.empty\<close>: some axis has length 0\<close>
  "df_empty df = (columns df = [] \<or> rows df = [])"

definition cell_at :: "string list \<Rightarrow> cell list \<Rightarrow> string \<Rightarrow> cell option" where
  \<comment> \<open>the cell of a row under a column label\<close>
  "cell_at cols r col = map_of (zip cols r) col"

fun fillna_cell :: "string \<Rightarrow> cell \<Rightarrow> cell" where
  "fillna_cell v NaN = Str v"
| "fillna_cell v c = c"

definition fillna :: "string \<Rightarrow> dataframe \<Rightarrow> dataframe" where
  \<comment> \<open>\<open>df.fillna(v)\<close>\<close>
  "fillna v df = df\<lparr>rows := map (map (fillna_cell v)) (rows df)\<rparr>"

definition replace_cell :: "string \<Rightarrow> string \<Rightarrow> cell \<Rightarrow> cell" where
  "replace_cell old new c = (if c = Str old then Str new else c)"

definition replace_value :: "string \<Rightarrow> string \<Rightarrow> dataframe \<Rightarrow> dataframe" where
  \<comment> \<open>\<open>df.replace(old, new)\<close>: the cells equal to \<open>old\<close> become \<open>new\<close>\<close>
  "replace_value old new df = df\<lparr>rows := map (map (replace_cell old new)) (rows df)\<rparr>"

fun astype_str :: "cell \<Rightarrow> cell" where
  \<comment> \<open>\<open>.astype(str)\<close>, on one cell\<close>
  "astype_str NaN = Str ''nan''"
| "astype_str (Str s) = Str s"
| "astype_str (Obj s) = Str s"

fun str_strip :: "cell \<Rightarrow> cell" where
  \<comment> \<open>\<open>.str.strip()\<close>, on one cell; the accessor gives \<open>NaN\<close> for a cell that is no string\<close>
  "str_strip (Str s) = Str (strip s)"
| "str_strip c = NaN"

function sub_spaces :: "string \<Rightarrow> string" where
  \<comment> \<open>\<open>re.sub(r"\s+", " ", s)\<close>: every maximal run of whitespace becomes one space\<close>
  "sub_spaces [] = []"
| "sub_spaces (c # cs) =
     (if isspace c then CHR '' '' # sub_spaces (dropWhile isspace cs) else c # sub_spaces cs)"
  by pat_completeness auto
termination
  by (relation "measure length") (auto simp: less_Suc_eq_le length_dropWhile_le)

fun str_replace_spaces :: "cell \<Rightarrow> cell" where
  \<comment> \<open>\<open>.str.replace(r"\s+", " ", regex=True)\<close>, on one cell\<close>
  "str_replace_spaces (Str s) = Str (sub_spaces s)"
| "str_replace_spaces c = NaN"

fun map_cells_at :: "string \<Rightarrow> (cell \<Rightarrow> cell) \<Rightarrow> string list \<Rightarrow> cell list \<Rightarrow> cell list" where
  "map_cells_at col f (c # cs) (v # vs) = (if c = col then f v else v) # map_cells_at col f cs vs"
| "map_cells_at col f cs vs = vs"

definition map_column :: "string \<Rightarrow> (cell \<Rightarrow> cell) \<Rightarrow> dataframe \<Rightarrow> dataframe" where
  \<comment> \<open>\<open>df[col] = f(df[col])\<close>, \<open>f\<close> working cell by cell\<close>
  "map_column col f df = df\<lparr>rows := map (map_cells_at col f (columns df)) (rows df)\<rparr>"

definition dropna_all :: "dataframe \<Rightarrow> dataframe" where
  \<comment> \<open>\<open>df.dropna(how="all")\<close>: a row stays when some cell of it is not missing\<close>
  "dropna_all df = df\<lparr>rows := filter (\<lambda>r. \<exists>v \<in> set r. v \<noteq> NaN) (rows df)\<rparr>"

section \<open>Aggregator: \<open>DataProcessor.clean_data\<close>\<close>

text \<open>
  Tables are objects: a variable holds a reference, \<open>copy\<close>, \<open>fillna\<close>, \<open>replace\<close> and
  \<open>dropna\<close> build a new object, and the assignment \<open>cleaned_df[col] = ...\<close> changes the
  object that \<open>cleaned_df\<close> refers to. The heap is the list of the objects, a reference is
  an index into it.
\<close>

type_synonym heap = "dataframe list"

definition new_object :: "dataframe \<Rightarrow> heap \<Rightarrow> nat \<times> heap" where
  "new_object df h = (length h, h @ [df])"

definition string_columns :: "string list" where
  "string_columns = [''club'', ''role'', ''name'', ''email'']"

definition phone_columns :: "string list" where
  "phone_columns = [''mobile_phone'', ''private_phone'']"

definition strip_string_column :: "nat \<Rightarrow> heap \<Rightarrow> string \<Rightarrow> heap" where
  \<comment> \<open>the body of \<open>for col in string_columns\<close>\<close>
  "strip_string_column cleaned_df h col =
     (if col \<in> set (columns (h ! cleaned_df))
      then h[cleaned_df := map_column col (str_strip \<circ> astype_str) (h ! cleaned_df)]
      else h)"

definition standardize_phone_column :: "nat \<Rightarrow> heap \<Rightarrow> string \<Rightarrow> heap" where
  \<comment> \<open>the body of \<open>for col in phone_columns\<close>\<close>
  "standardize_phone_column cleaned_df h col =
     (if col \<in> set (columns (h ! cleaned_df))
      then (let h = h[cleaned_df := map_column col (str_strip \<circ> astype_str) (h ! cleaned_df)];
                h = h[cleaned_df := map_column col str_replace_spaces (h ! cleaned_df)]
            in h)
      else h)"

definition clean_data_on :: "nat \<Rightarrow> heap \<Rightarrow> nat \<times> heap" where
  \<comment> \<open>\<open>clean_data(df)\<close> on the heap: the reference returned and the heap afterwards\<close>
  "clean_data_on df h =
     (let (cleaned_df, h) = new_object (h ! df) h;
          (cleaned_df, h) = new_object (fillna ''N/A'' (h ! cleaned_df)) h;
          (cleaned_df, h) = new_object (replace_value [] ''N/A'' (h ! cleaned_df)) h;
          h = foldl (strip_string_column cleaned_df) h string_columns;
          h = foldl (standardize_phone_column cleaned_df) h phone_columns;
          (cleaned_df, h) = new_object (dropna_all (h ! cleaned_df)) h
      in (cleaned_df, h))"

definition clean_data :: "dataframe \<Rightarrow> dataframe" where
  \<comment> \<open>the table that \<open>clean_data\<close> returns for a table\<close>
  "clean_data df = (let (cleaned_df, h) = clean_data_on 0 [df] in h ! cleaned_df)"

subsection \<open>The same steps on table values\<close>

text \<open>
  The definitions of this subsection serve the proofs: they say, on values, what the loops of
  \<open>clean_data\<close> do to the object they update, and what that amounts to for one cell.
\<close>

definition strip_col :: "string \<Rightarrow> dataframe \<Rightarrow> dataframe" where
  "strip_col col d =
     (if col \<in> set (columns d) then map_column col (str_strip \<circ> astype_str) d else d)"

definition phone_col :: "string \<Rightarrow> dataframe \<Rightarrow> dataframe" where
  "phone_col col d =
     (if col \<in> set (columns d)
      then map_column col str_replace_spaces (map_column col (str_strip \<circ> astype_str) d)
      else d)"

definition standardized :: "dataframe \<Rightarrow> dataframe" where
  \<comment> \<open>the object \<open>cleaned_df\<close> just before \<open>dropna\<close>\<close>
  "standardized d =
     foldl (\<lambda>d col. phone_col col d)
       (foldl (\<lambda>d col. strip_col col d) (replace_value [] ''N/A'' (fillna ''N/A'' d)) string_columns)
       phone_columns"

definition normalize_cell :: "cell \<Rightarrow> cell" where
  "normalize_cell v = replace_cell [] ''N/A'' (fillna_cell ''N/A'' v)"

definition clean_cell :: "string \<Rightarrow> cell \<Rightarrow> cell" where
  "clean_cell c v =
     (if c \<in> set string_columns then str_strip (astype_str (normalize_cell v))
      else if c \<in> set phone_columns
      then str_replace_spaces (str_strip (astype_str (normalize_cell v)))
      else normalize_cell v)"

fun clean_cells :: "string list \<Rightarrow> cell list \<Rightarrow> cell list" where
  "clean_cells (c # cs) (v # vs) = clean_cell c v # clean_cells cs vs"
| "clean_cells [] vs = map normalize_cell vs"
| "clean_cells (c # cs) [] = []"

definition trimmed :: "string \<Rightarrow> bool" where
  "trimmed s = (s = [] \<or> (\<not> isspace (hd s) \<and> \<not> isspace (last s)))"

fun whitespace_only :: "cell \<Rightarrow> bool" where
  \<comment> \<open>a cell whose text is whitespace and nothing else, such as \<open>" "\<close>\<close>
  "whitespace_only NaN = False"
| "whitespace_only (Str s) = (s \<noteq> [] \<and> strip s = [])"
| "whitespace_only (Obj s) = (strip s = [])"

definition no_whitespace_only_cells :: "dataframe \<Rightarrow> bool" where
  \<comment> \<open>no cell under one of the six schema labels is whitespace only\<close>
  "no_whitespace_only_cells df =
     list_all (\<lambda>r. list_all (\<lambda>(c, v). c \<in> set CSV_FIELDNAMES \<longrightarrow> \<not> whitespace_only v)
                    (zip (columns df) r))
       (rows df)"

section \<open>Aggregator: files, validation, summary and spreadsheets\<close>

record csv_file =
  stem :: string                       \<comment> \<open>the file name without \<open>.csv\<close>\<close>
  read_csv :: "dataframe option"       \<comment> \<open>what \<open>pd.read_csv\<close> gives; \<open>None\<close> when it raises\<close>

definition file_name :: "csv_file \<Rightarrow> string" where
  "file_name f = stem f @ ''.csv''"

definition validate_csv_structure :: "csv_file \<Rightarrow> bool" where
  "validate_csv_structure f =
     (case read_csv f of
        None \<Rightarrow> False
      | Some df \<Rightarrow>
          if set CSV_FIELDNAMES - set (columns df) \<noteq> {} then False
          else if df_empty df then False
          else True)"

record club_summary =
  name :: cell
  trainers :: nat
  file_ :: string

record summary =
  total_files :: nat
  total_trainers :: nat
  clubs :: "club_summary list"
  files_with_errors :: "string list"

definition summarize_file :: "summary \<Rightarrow> csv_file \<Rightarrow> summary" where
  \<comment> \<open>the body of the loop of \<open>get_data_summary\<close>; the \<open>except\<close> branch is taken when the
      second \<open>read_csv\<close> or the access to the column \<open>club\<close> raises\<close>
  "summarize_file s f =
     (if validate_csv_structure f then
        (case read_csv f of
           None \<Rightarrow> s\<lparr>files_with_errors := files_with_errors s @ [file_name f]\<rparr>
         | Some df \<Rightarrow>
             if df_empty df then
               s\<lparr>clubs := clubs s @ [\<lparr>name = Str (stem f), trainers = length (rows df),
                                       file_ = file_name f\<rparr>],
                 total_trainers := total_trainers s + length (rows df)\<rparr>
             else
               (case cell_at (columns df) (hd (rows df)) ''club'' of
                  None \<Rightarrow> s\<lparr>files_with_errors := files_with_errors s @ [file_name f]\<rparr>
                | Some club_name \<Rightarrow>
                    s\<lparr>clubs := clubs s @ [\<lparr>name = club_name, trainers = length (rows df),
                                            file_ = file_name f\<rparr>],
                      total_trainers := total_trainers s + length (rows df)\<rparr>))
      else s\<lparr>files_with_errors := files_with_errors s @ [file_name f]\<rparr>)"

definition get_data_summary :: "csv_file list \<Rightarrow> summary" where
  \<comment> \<open>the argument is the list that \<open>get_csv_files\<close> returns\<close>
  "get_data_summary csv_files =
     foldl summarize_file
       \<lparr>total_files = length csv_files, total_trainers = 0, clubs = [], files_with_errors = []\<rparr>
       csv_files"

definition sanitize_sheet_name :: "string \<Rightarrow> string" where
  "sanitize_sheet_name nm =
     (let invalid_chars = [CHR ''['', CHR '']'', CHR ''*'', CHR ''?'', CHR '':'', CHR ''/'', CHR 0x5C];
          nm = foldl (\<lambda>nm char. filter (\<lambda>c. c \<noteq> char) nm) nm invalid_chars;
          nm = (if length nm > 31 then take 31 nm else nm);
          nm = (if nm = [] then ''Sheet'' else nm)
      in nm)"

text \<open>
  What the functions below do to the spreadsheet file is given as the list of the calls
  \<open>df.to_excel(writer, sheet_name=...)\<close> they make, in order, each with the sheet name and
  the table passed. What the file holds afterwards is the business of the writer, and so is
  whether a call or the end of the \<open>with pd.ExcelWriter(...)\<close> block raises: \<open>save calls\<close> says
  whether the block, having made these calls, ends without an exception leaving it. In
  \<open>_combine_to_separate_sheets\<close> an exception of \<open>to_excel\<close> is caught inside the loop, which
  goes on with the next file, so that the calls made do not depend on it.
\<close>

type_synonym excel_calls = "(string \<times> dataframe) list"

fun separate_sheets :: "csv_file list \<Rightarrow> excel_calls" where
  \<comment> \<open>the loop of \<open>_combine_to_separate_sheets\<close>: the calls of \<open>to_excel\<close>, in order\<close>
  "separate_sheets [] = []"
| "separate_sheets (f # fs) =
     (if \<not> validate_csv_structure f then separate_sheets fs
      else (case read_csv f of
              None \<Rightarrow> separate_sheets fs
            | Some df \<Rightarrow> (sanitize_sheet_name (stem f), clean_data df) # separate_sheets fs))"

definition combine_to_separate_sheets ::
  "(excel_calls \<Rightarrow> bool) \<Rightarrow> csv_file list \<Rightarrow> bool outcome \<times> excel_calls" where
  "combine_to_separate_sheets save csv_files =
     (let calls = separate_sheets csv_files
      in (if save calls then Returned True else Raised, calls))"

fun collect_all_data :: "csv_file list \<Rightarrow> dataframe list" where
  \<comment> \<open>the loop of \<open>_combine_to_single_sheet\<close>: the list \<open>all_data\<close>\<close>
  "collect_all_data [] = []"
| "collect_all_data (f # fs) =
     (if \<not> validate_csv_structure f then collect_all_data fs
      else (case read_csv f of
              None \<Rightarrow> collect_all_data fs
            | Some df \<Rightarrow> clean_data df # collect_all_data fs))"

definition union_columns :: "dataframe list \<Rightarrow> string list" where
  \<comment> \<open>the labels of all the tables, each once, in the order of first appearance\<close>
  "union_columns dfs =
     foldl (\<lambda>acc df. acc @ filter (\<lambda>c. c \<notin> set acc) (columns df)) [] dfs"

fun retype_cell :: "(string \<Rightarrow> string \<Rightarrow> string) \<Rightarrow> string \<Rightarrow> cell \<Rightarrow> cell" where
  \<comment> \<open>\<open>pd.concat\<close> gives each column of its result one dtype, which converts numbers where
      the tables disagree or where a table lacks the column (the integer 7 becomes 7.0).
      \<open>retype col s\<close> is the text of the scalar of text \<open>s\<close> once it is in column \<open>col\<close> of
      the result. A string stays what it is, and a missing cell stays missing.\<close>
  "retype_cell retype col (Obj s) = Obj (retype col s)"
| "retype_cell retype col v = v"

definition reindex ::
  "(string \<Rightarrow> string \<Rightarrow> string) \<Rightarrow> string list \<Rightarrow> dataframe \<Rightarrow> cell list list" where
  \<comment> \<open>the rows of a table laid out under the labels of the result, a column it lacks being
      missing\<close>
  "reindex retype cols df =
     map (\<lambda>r. map (\<lambda>c. retype_cell retype c
                          (case cell_at (columns df) r c of Some v \<Rightarrow> v | None \<Rightarrow> NaN)) cols)
       (rows df)"

definition concat_frames :: "(string \<Rightarrow> string \<Rightarrow> string) \<Rightarrow> dataframe list \<Rightarrow> dataframe" where
  \<comment> \<open>\<open>pd.concat(dfs, ignore_index=True)\<close>\<close>
  "concat_frames retype dfs =
     \<lparr>columns = union_columns dfs,
      rows = concat (map (reindex retype (union_columns dfs)) dfs)\<rparr>"

definition sort_key_of :: "string list \<Rightarrow> cell list \<Rightarrow> (string \<times> string \<times> string) option" where
  \<comment> \<open>the key of a row for \<open>sort_values(["club", "role", "name"])\<close>, when the three cells
      are strings\<close>
  "sort_key_of cols r =
     (case (cell_at cols r ''club'', cell_at cols r ''role'', cell_at cols r ''name'') of
        (Some (Str c), Some (Str ro), Some (Str n)) \<Rightarrow> Some (c, ro, n)
      | _ \<Rightarrow> None)"

definition sort_values :: "dataframe \<Rightarrow> dataframe option" where
  \<comment> \<open>\<open>df.sort_values(["club", "role", "name"])\<close> for a table whose three key columns hold
      strings only: the rows in ascending order of the key, rows of equal keys in their
      order. \<open>None\<close> for any other table (a key column that is absent raises; missing and
      mixed cells are outside this model).\<close>
  "sort_values df =
     (if list_all (\<lambda>r. sort_key_of (columns df) r \<noteq> None) (rows df)
      then Some (df\<lparr>rows := sort_key (\<lambda>r. the (sort_key_of (columns df) r)) (rows df)\<rparr>)
      else None)"

definition combine_to_single_sheet ::
  "(string \<Rightarrow> string \<Rightarrow> string) \<Rightarrow> (excel_calls \<Rightarrow> bool) \<Rightarrow> csv_file list
    \<Rightarrow> bool outcome \<times> excel_calls" where
  "combine_to_single_sheet retype save csv_files =
     (let all_data = collect_all_data csv_files
      in if all_data = [] then (Returned False, [])
         else (case sort_values (concat_frames retype all_data) of
                 None \<Rightarrow> (Raised, [])
               | Some combined_df \<Rightarrow>
                   (if save [(''All Clubs'', combined_df)] then Returned True else Raised,
                    [(''All Clubs'', combined_df)])))"

definition combine_csv_files_to_xlsx ::
  "(string \<Rightarrow> string \<Rightarrow> string) \<Rightarrow> (excel_calls \<Rightarrow> bool) \<Rightarrow> csv_file list \<Rightarrow> bool
    \<Rightarrow> bool \<times> excel_calls" where
  \<comment> \<open>the list is what \<open>get_csv_files\<close> returns; the result is the boolean returned and the
      calls of \<open>to_excel\<close> made\<close>
  "combine_csv_files_to_xlsx retype save csv_files separate_sheets_mode =
     (if csv_files = [] then (False, [])
      else (case (if separate_sheets_mode then combine_to_separate_sheets save csv_files
                  else combine_to_single_sheet retype save csv_files) of
              (Returned b, calls) \<Rightarrow> (b, calls)
            | (Raised, calls) \<Rightarrow> (False, calls)))"

definition convert_csv_to_xlsx :: "(excel_calls \<Rightarrow> bool) \<Rightarrow> csv_file \<Rightarrow> bool \<times> excel_calls" where
  "convert_csv_to_xlsx save f =
     (if \<not> validate_csv_structure f then (False, [])
      else (case read_csv f of
              None \<Rightarrow> (False, [])
            | Some df \<Rightarrow>
                (save [(''Trainers'', clean_data df)], [(''Trainers'', clean_data df)])))"

subsection \<open>Tables and files used in the proofs and as examples\<close>

definition schema_strings :: "dataframe \<Rightarrow> bool" where
  \<comment> \<open>the table has the six schema columns, and they hold strings only\<close>
  "schema_strings d =
     (\<forall>c \<in> set CSV_FIELDNAMES.
        c \<in> set (columns d) \<and> (\<forall>r \<in> set (rows d). \<exists>s. cell_at (columns d) r c = Some (Str s)))"

definition openMess_call :: "string \<Rightarrow> string \<Rightarrow> string \<Rightarrow> string" where
  "openMess_call domain ws user =
     ''openMess('' @ [quote] @ domain @ [quote] @ '','' @ ws @ [quote] @ user @ [quote] @ '')''"

definition data_row_example :: "string \<Rightarrow> node list \<Rightarrow> node" where
  "data_row_example person contact =
     Element ''div'' [''row''] []
       [Element ''div'' [''col-md-6''] [] [Element ''span'' [''ftName''] [] [Text person]],
        Element ''div'' [''col-md-6''] [] contact]"

definition link_example :: "string \<Rightarrow> node" where
  "link_example href = Element ''a'' [] [(''href'', href)] [Text ''E-Mail'']"

definition heading_row_example :: "node list \<Rightarrow> node" where
  "heading_row_example title = Element ''div'' [''row'', ''heading''] [] [Element ''h5'' [] [] title]"

definition document_example :: "node list \<Rightarrow> node list" where
  "document_example title =
     [Element ''div'' [''liste''] []
        [heading_row_example title,
         data_row_example ''Ann Moix'' [Text ''Mobile : +41 79 123 45 67'']]]"

definition file_of_three :: csv_file where
  "file_of_three =
     \<lparr>stem = ''FC Sion'',
      read_csv = Some \<lparr>columns = CSV_FIELDNAMES, rows =
        [[Str ''FC Sion'', Str ''Trainer'', Str ''Zed'', Str ''+41 79 123 45 67'', NaN, Str ''zed@example.com''],
         [Str ''FC Sion'', Str ''Assistant'', Str ''Amy'', NaN, NaN, NaN],
         [Str ''FC Sion'', Str ''Trainer'', Str ''Bob'', NaN, Str ''+41 27 111 22 33'', NaN]]\<rparr>\<rparr>"

definition file_of_five :: csv_file where
  "file_of_five =
     \<lparr>stem = ''FC Bramois'',
      read_csv = Some \<lparr>columns = CSV_FIELDNAMES, rows =
        [[Str ''FC Bramois'', Str ''Trainer'', Str ''Eve'', NaN, NaN, NaN],
         [Str ''FC Bramois'', Str ''Trainer'', Str ''Dan'', NaN, NaN, NaN],
         [Str ''FC Bramois'', Str ''Coach'', Str ''Cat'', NaN, NaN, NaN],
         [Str ''FC Bramois'', Str ''Assistant'', Str ''Ben'', NaN, NaN, NaN],
         [Str ''FC Bramois'', Str ''Assistant'', Str ''Ann'', NaN, NaN, NaN]]\<rparr>\<rparr>"

definition combined_example :: dataframe where
  "combined_example =
     \<lparr>columns = CSV_FIELDNAMES, rows =
        [[Str ''FC Bramois'', Str ''Assistant'', Str ''Ann'', Str ''N/A'', Str ''N/A'', Str ''N/A''],
         [Str ''FC Bramois'', Str ''Assistant'', Str ''Ben'', Str ''N/A'', Str ''N/A'', Str ''N/A''],
         [Str ''FC Bramois'', Str ''Coach'', Str ''Cat'', Str ''N/A'', Str ''N/A'', Str ''N/A''],
         [Str ''FC Bramois'', Str ''Trainer'', Str ''Dan'', Str ''N/A'', Str ''N/A'', Str ''N/A''],
         [Str ''FC Bramois'', Str ''Trainer'', Str ''Eve'', Str ''N/A'', Str ''N/A'', Str ''N/A''],
         [Str ''FC Sion'', Str ''Assistant'', Str ''Amy'', Str ''N/A'', Str ''N/A'', Str ''N/A''],
         [Str ''FC Sion'', Str ''Trainer'', Str ''Bob'', Str ''N/A'', Str ''+41 27 111 22 33'', Str ''N/A''],
         [Str ''FC Sion'', Str ''Trainer'', Str ''Zed'', Str ''+41 79 123 45 67'', Str ''N/A'',
          Str ''zed@example.com'']]\<rparr>"

definition cleaned_three :: dataframe where
  "cleaned_three =
     \<lparr>columns = CSV_FIELDNAMES, rows =
        [[Str ''FC Sion'', Str ''Trainer'', Str ''Zed'', Str ''+41 79 123 45 67'', Str ''N/A'',
          Str ''zed@example.com''],
         [Str ''FC Sion'', Str ''Assistant'', Str ''Amy'', Str ''N/A'', Str ''N/A'', Str ''N/A''],
         [Str ''FC Sion'', Str ''Trainer'', Str ''Bob'', Str ''N/A'', Str ''+41 27 111 22 33'', Str ''N/A'']]\<rparr>"

definition cleaned_five :: dataframe where
  "cleaned_five =
     \<lparr>columns = CSV_FIELDNAMES, rows =
        [[Str ''FC Bramois'', Str ''Trainer'', Str ''Eve'', Str ''N/A'', Str ''N/A'', Str ''N/A''],
         [Str ''FC Bramois'', Str ''Trainer'', Str ''Dan'', Str ''N/A'', Str ''N/A'', Str ''N/A''],
         [Str ''FC Bramois'', Str ''Coach'', Str ''Cat'', Str ''N/A'', Str ''N/A'', Str ''N/A''],
         [Str ''FC Bramois'', Str ''Assistant'', Str ''Ben'', Str ''N/A'', Str ''N/A'', Str ''N/A''],
         [Str ''FC Bramois'', Str ''Assistant'', Str ''Ann'', Str ''N/A'', Str ''N/A'', Str ''N/A'']]\<rparr>"

definition file_without_email :: csv_file where
  "file_without_email =
     \<lparr>stem = ''FC Erde'',
      read_csv = Some \<lparr>columns = [''club'', ''role'', ''name'', ''mobile_phone'', ''private_phone''],
        rows = [[Str ''FC Erde'', Str ''Trainer'', Str ''Kim'', NaN, NaN]]\<rparr>\<rparr>"

definition file_header_only :: csv_file where
  "file_header_only =
     \<lparr>stem = ''FC Riddes'', read_csv = Some \<lparr>columns = CSV_FIELDNAMES, rows = []\<rparr>\<rparr>"

section \<open>Properties of the fetcher\<close>

lemma fetch_loop_all_fail:
  "\<forall>i. a \<le> i \<and> i < a + k \<longrightarrow> retryable_failure (run i) \<Longrightarrow>
   fetch_loop run command retries a k tr = (Returned None, tr @ attempts_trace command retries a k)"
proof (induction k arbitrary: a tr)
  case 0
  then show ?case by (simp add: attempts_trace_def)
next
  case (Suc k)
  have now: "retryable_failure (run a)" using Suc.prems by simp
  have later: "\<forall>i. Suc a \<le> i \<and> i < Suc a + k \<longrightarrow> retryable_failure (run i)"
    using Suc.prems by simp
  have unfold: "attempts_trace command retries a (Suc k) =
      Invoke command # (if int a < retries then [Sleep ((int a + 1) * 2)] else [])
      @ attempts_trace command retries (Suc a) k"
    by (simp add: attempts_trace_def upt_conv_Cons del: upt_Suc)
  have step: "fetch_loop run command retries a (Suc k) tr =
      fetch_loop run command retries (Suc a) k (backoff retries a (tr @ [Invoke command]))"
    using now by (cases "run a") (simp_all add: retryable_failure_def)
  show ?case
    unfolding step Suc.IH [OF later] unfold by (simp add: backoff_def)
qed

text \<open>
  Claim C1. With \<open>retries = n \<ge> 0\<close> (3 by default) and every attempt failing in a way that
  is retried (non-zero exit, timeout, or a body that is empty once stripped), the fetch
  invokes the command exactly \<open>n + 1\<close> times, sleeps \<open>2 (i + 1)\<close> seconds after the failed
  attempt \<open>i < n\<close> and before the next one, does not sleep after the last attempt, and
  returns \<open>None\<close>: no exception leaves the function.
\<close>

theorem fetch_retries_exhausted:
  assumes "0 \<le> retries"
    and "\<forall>i. i \<le> nat retries \<longrightarrow> retryable_failure (run i)"
  shows "fetch_html_with_curl run headers cookie_string url retries =
     (Returned None,
      concat (map (\<lambda>i. [Invoke (curl_command headers cookie_string url), Sleep ((int i + 1) * 2)])
                [0..<nat retries])
      @ [Invoke (curl_command headers cookie_string url)])"
proof -
  let ?c = "curl_command headers cookie_string url"
  have k: "nat (retries + 1) = Suc (nat retries)" using assms(1) by simp
  have "\<forall>i. 0 \<le> i \<and> i < 0 + nat (retries + 1) \<longrightarrow> retryable_failure (run i)"
    using assms(2) k by simp
  then have "fetch_html_with_curl run headers cookie_string url retries =
      (Returned None, [] @ attempts_trace ?c retries 0 (nat (retries + 1)))"
    unfolding fetch_html_with_curl_def by (rule fetch_loop_all_fail)
  moreover have "attempts_trace ?c retries 0 (nat (retries + 1)) =
      concat (map (\<lambda>i. [Invoke ?c, Sleep ((int i + 1) * 2)]) [0..<nat retries]) @ [Invoke ?c]"
  proof -
    let ?F = "\<lambda>i. Invoke ?c # (if int i < retries then [Sleep ((int i + 1) * 2)] else [])"
    let ?G = "\<lambda>i. [Invoke ?c, Sleep ((int i + 1) * 2)]"
    have eq: "map ?F [0..<nat retries] = map ?G [0..<nat retries]"
      using assms(1) by (intro map_cong) auto
    have last: "?F (nat retries) = [Invoke ?c]"
      using assms(1) by simp
    have "attempts_trace ?c retries 0 (nat (retries + 1)) =
        concat (map ?F [0..<nat retries]) @ ?F (nat retries)"
      unfolding attempts_trace_def k by simp
    then show ?thesis unfolding eq last .
  qed
  ultimately show ?thesis by simp
qed

theorem fetch_retries_exhausted_witness:
  "fetch_html_with_curl (\<lambda>i. if i = 1 then TimeoutExpired else if i = 2 then Completed '' '' else CalledProcessError)
      [''Accept: text/html''] ''sid=1'' ''http://host/x'' MAX_RETRY_ATTEMPTS =
     (Returned None,
      [Invoke (curl_command [''Accept: text/html''] ''sid=1'' ''http://host/x''), Sleep 2,
       Invoke (curl_command [''Accept: text/html''] ''sid=1'' ''http://host/x''), Sleep 4,
       Invoke (curl_command [''Accept: text/html''] ''sid=1'' ''http://host/x''), Sleep 6,
       Invoke (curl_command [''Accept: text/html''] ''sid=1'' ''http://host/x'')])"
proof -
  have h1: "(0::int) \<le> MAX_RETRY_ATTEMPTS" by (simp add: MAX_RETRY_ATTEMPTS_def)
  have h2: "\<forall>i. i \<le> nat MAX_RETRY_ATTEMPTS \<longrightarrow> retryable_failure
      ((\<lambda>i. if i = 1 then TimeoutExpired else if i = 2 then Completed '' '' else CalledProcessError) i)"
    by (simp add: retryable_failure_def strip_def isspace_def)
  have three: "[0..<nat MAX_RETRY_ATTEMPTS] = [0, 1, 2]"
    by (simp add: MAX_RETRY_ATTEMPTS_def eval_nat_numeral upt_conv_Cons)
  show ?thesis
    using fetch_retries_exhausted [OF h1 h2, of "[''Accept: text/html'']" "''sid=1''" "''http://host/x''"]
    unfolding three by simp
qed

text \<open>
  Claim C9. When the first invocation finds no \<open>curl\<close> (\<open>FileNotFoundError\<close>), the fetch
  returns \<open>None\<close> at once, for every URL and every retry count: the trace holds that one
  invocation and no sleep (and nothing at all when \<open>retries < 0\<close>, where the loop body never
  runs).
\<close>

theorem fetch_tool_missing:
  assumes "run 0 = FileNotFoundError"
  shows "fetch_html_with_curl run headers cookie_string url retries =
     (Returned None, if 0 \<le> retries then [Invoke (curl_command headers cookie_string url)] else [])"
proof (cases "0 \<le> retries")
  case True
  then have "nat (retries + 1) = Suc (nat retries)" by simp
  then show ?thesis using assms True by (simp add: fetch_html_with_curl_def)
next
  case False
  then have "nat (retries + 1) = 0" by simp
  then show ?thesis using False by (simp add: fetch_html_with_curl_def)
qed

theorem fetch_tool_missing_witness:
  "fetch_html_with_curl (\<lambda>i. FileNotFoundError) [] ''sid=1'' ''http://host/x'' 3 =
     (Returned None, [Invoke (curl_command [] ''sid=1'' ''http://host/x'')])"
  using fetch_tool_missing [of "\<lambda>i. FileNotFoundError" "[]" "''sid=1''" "''http://host/x''" 3]
  by simp

section \<open>Properties of \<open>clean_data\<close>\<close>

lemma foldl_strip_string_column:
  "a < length h \<Longrightarrow>
   foldl (strip_string_column a) h cols = h[a := foldl (\<lambda>d col. strip_col col d) (h ! a) cols]"
proof (induction cols arbitrary: h)
  case Nil
  then show ?case by simp
next
  case (Cons col cols)
  have "strip_string_column a h col = h[a := strip_col col (h ! a)]"
    by (simp add: strip_string_column_def strip_col_def)
  then show ?case using Cons by simp
qed

lemma foldl_standardize_phone_column:
  "a < length h \<Longrightarrow>
   foldl (standardize_phone_column a) h cols = h[a := foldl (\<lambda>d col. phone_col col d) (h ! a) cols]"
proof (induction cols arbitrary: h)
  case Nil
  then show ?case by simp
next
  case (Cons col cols)
  have "standardize_phone_column a h col = h[a := phone_col col (h ! a)]"
    using Cons.prems by (simp add: standardize_phone_column_def phone_col_def Let_def)
  then show ?case using Cons by simp
qed

lemma clean_data_on_eq:
  assumes "df < length h"
  shows "clean_data_on df h =
     (length h + 3,
      h @ [h ! df, fillna ''N/A'' (h ! df), standardized (h ! df), dropna_all (standardized (h ! df))])"
proof -
  let ?h3 = "h @ [h ! df, fillna ''N/A'' (h ! df), replace_value [] ''N/A'' (fillna ''N/A'' (h ! df))]"
  have a: "length h + 2 < length ?h3" by simp
  have at: "?h3 ! (length h + 2) = replace_value [] ''N/A'' (fillna ''N/A'' (h ! df))"
    by (simp add: nth_append)
  have iterations: "foldl (standardize_phone_column (length h + 2))
        (foldl (strip_string_column (length h + 2)) ?h3 string_columns) phone_columns
      = ?h3[length h + 2 := standardized (h ! df)]"
    unfolding foldl_strip_string_column [OF a] at
    by (subst foldl_standardize_phone_column) (simp_all add: standardized_def)
  have upd: "?h3[length h + 2 := standardized (h ! df)]
      = h @ [h ! df, fillna ''N/A'' (h ! df), standardized (h ! df)]"
    by (simp add: list_update_append)
  have "clean_data_on df h =
      new_object (dropna_all ((?h3[length h + 2 := standardized (h ! df)]) ! (length h + 2)))
        (?h3[length h + 2 := standardized (h ! df)])"
    unfolding clean_data_on_def iterations [symmetric]
    by (simp add: new_object_def Let_def nth_append)
  then show ?thesis unfolding upd by (simp add: new_object_def nth_append)
qed

lemma clean_data_eq: "clean_data df = dropna_all (standardized df)"
  by (simp add: clean_data_def clean_data_on_eq nth_append)

text \<open>
  Claim C10. \<open>clean_data\<close> does not change its argument: after the call the object that
  \<open>df\<close> refers to, like every object that existed before, is what it was, and the reference
  returned is that of a new object, which holds the cleaned table.
\<close>

theorem clean_data_leaves_argument:
  assumes "df < length h"
  shows "case clean_data_on df h of
           (cleaned_df, h') \<Rightarrow>
             take (length h) h' = h \<and> h' ! df = h ! df
             \<and> length h \<le> cleaned_df \<and> cleaned_df < length h'
             \<and> h' ! cleaned_df = clean_data (h ! df)"
  using assms by (simp add: clean_data_on_eq clean_data_eq nth_append)

lemma trimmed_strip_id: "trimmed y \<Longrightarrow> strip y = y"
proof (cases "y = []")
  case True
  then show ?thesis by (simp add: strip_def)
next
  case False
  assume "trimmed y"
  with False have h: "\<not> isspace (hd y)" and l: "\<not> isspace (last y)"
    by (simp_all add: trimmed_def)
  have 1: "dropWhile isspace y = y" using h False by (simp add: dropWhile_eq_self_iff)
  have 2: "dropWhile isspace (rev y) = rev y"
    using l False by (simp add: dropWhile_eq_self_iff hd_rev)
  show ?thesis by (simp add: strip_def 1 2)
qed

lemma last_dropWhile: "dropWhile P xs \<noteq> [] \<Longrightarrow> last (dropWhile P xs) = last xs"
  by (induction xs) (auto split: if_splits)

lemma trimmed_strip: "trimmed (strip s)"
proof (cases "strip s = []")
  case True
  then show ?thesis by (simp add: trimmed_def)
next
  case False
  let ?t = "dropWhile isspace s"
  let ?u = "dropWhile isspace (rev ?t)"
  have s: "strip s = rev ?u" by (simp add: strip_def)
  have u: "?u \<noteq> []" using False s by simp
  then have t: "?t \<noteq> []" by (metis dropWhile.simps(1) rev.simps(1))
  have "\<not> isspace (hd ?u)" using u by (rule hd_dropWhile)
  then have l: "\<not> isspace (last (strip s))" using u s by (simp add: last_rev)
  have "last ?u = last (rev ?t)" using u by (rule last_dropWhile)
  also have "\<dots> = hd ?t" using t by (simp add: last_rev)
  finally have "hd (strip s) = hd ?t" using u s by (simp add: hd_rev)
  moreover have "\<not> isspace (hd ?t)" using t by (rule hd_dropWhile)
  ultimately show ?thesis using l by (simp add: trimmed_def)
qed

lemma strip_strip: "strip (strip s) = strip s"
  by (rule trimmed_strip_id) (rule trimmed_strip)

lemma sub_spaces_Nil_iff: "sub_spaces x = [] \<longleftrightarrow> x = []"
  by (cases x) simp_all

lemma sub_spaces_last: "x \<noteq> [] \<Longrightarrow> \<not> isspace (last x) \<Longrightarrow> \<not> isspace (last (sub_spaces x))"
proof (induction x rule: sub_spaces.induct)
  case 1
  then show ?case by simp
next
  case (2 c cs)
  show ?case
  proof (cases "isspace c")
    case True
    have cs: "cs \<noteq> []" using True "2.prems" by auto
    then have lcs: "\<not> isspace (last cs)" using "2.prems" by simp
    have d: "dropWhile isspace cs \<noteq> []"
    proof
      assume "dropWhile isspace cs = []"
      then have "\<forall>x \<in> set cs. isspace x" by (simp add: dropWhile_eq_Nil_conv)
      then show False using cs lcs by (meson last_in_set)
    qed
    have "last (dropWhile isspace cs) = last cs" using d by (rule last_dropWhile)
    then have "\<not> isspace (last (sub_spaces (dropWhile isspace cs)))"
      using "2.IH"(1) [OF True d] lcs by simp
    moreover have "sub_spaces (dropWhile isspace cs) \<noteq> []"
      using d by (simp only: sub_spaces_Nil_iff not_False_eq_True)
    moreover have "sub_spaces (c # cs) = CHR '' '' # sub_spaces (dropWhile isspace cs)"
      using True by simp
    ultimately show ?thesis by (simp del: sub_spaces.simps)
  next
    case False
    show ?thesis
    proof (cases "cs = []")
      case True
      then show ?thesis using False by simp
    next
      case cs: False
      then have "\<not> isspace (last cs)" using "2.prems" by simp
      then have "\<not> isspace (last (sub_spaces cs))" using "2.IH"(2) [OF False cs] by simp
      then show ?thesis using False cs by (simp add: sub_spaces_Nil_iff)
    qed
  qed
qed

lemma sub_spaces_hd: "x \<noteq> [] \<Longrightarrow> \<not> isspace (hd x) \<Longrightarrow> hd (sub_spaces x) = hd x"
  by (cases x) simp_all

lemma trimmed_sub_spaces: "trimmed x \<Longrightarrow> trimmed (sub_spaces x)"
  by (cases "x = []") (auto simp: trimmed_def sub_spaces_hd sub_spaces_last sub_spaces_Nil_iff)

lemma dropWhile_sub_spaces:
  "dropWhile isspace (sub_spaces (dropWhile isspace cs)) = sub_spaces (dropWhile isspace cs)"
proof (cases "dropWhile isspace cs = []")
  case True
  show ?thesis unfolding True by simp
next
  case False
  then have "\<not> isspace (hd (dropWhile isspace cs))" by (rule hd_dropWhile)
  then have "\<not> isspace (hd (sub_spaces (dropWhile isspace cs)))"
    using False by (simp add: sub_spaces_hd)
  then show ?thesis by (simp add: dropWhile_eq_self_iff)
qed

lemma sub_spaces_idem: "sub_spaces (sub_spaces x) = sub_spaces x"
proof (induction x rule: sub_spaces.induct)
  case 1
  then show ?case by simp
next
  case (2 c cs)
  show ?case
  proof (cases "isspace c")
    case True
    have sp: "isspace CHR '' ''" by (simp add: isspace_def)
    show ?thesis using True "2.IH"(1) [OF True] sp by (simp add: dropWhile_sub_spaces)
  next
    case False
    then show ?thesis using "2.IH"(2) by simp
  qed
qed

lemma map_cells_at_absent: "col \<notin> set cols \<Longrightarrow> map_cells_at col f cols r = r"
  by (induction col f cols r rule: map_cells_at.induct) auto

lemma map_column_absent:
  assumes "col \<notin> set (columns d)"
  shows "map_column col f d = d"
proof -
  have "map_cells_at col f (columns d) = (\<lambda>r. r)"
    using assms by (intro ext) (rule map_cells_at_absent)
  then show ?thesis by (simp add: map_column_def)
qed

lemma strip_col_eq: "strip_col col d = map_column col (str_strip \<circ> astype_str) d"
  by (simp add: strip_col_def map_column_absent)

lemma phone_col_eq:
  "phone_col col d = map_column col str_replace_spaces (map_column col (str_strip \<circ> astype_str) d)"
proof (cases "col \<in> set (columns d)")
  case True
  then show ?thesis by (simp add: phone_col_def)
next
  case False
  then have "map_column col (str_strip \<circ> astype_str) d = d" by (rule map_column_absent)
  then show ?thesis using False by (simp add: phone_col_def map_column_absent)
qed

lemma clean_cells_steps:
  "map_cells_at ''private_phone'' str_replace_spaces cols
    (map_cells_at ''private_phone'' (str_strip \<circ> astype_str) cols
      (map_cells_at ''mobile_phone'' str_replace_spaces cols
        (map_cells_at ''mobile_phone'' (str_strip \<circ> astype_str) cols
          (map_cells_at ''email'' (str_strip \<circ> astype_str) cols
            (map_cells_at ''name'' (str_strip \<circ> astype_str) cols
              (map_cells_at ''role'' (str_strip \<circ> astype_str) cols
                (map_cells_at ''club'' (str_strip \<circ> astype_str) cols
                  (map (replace_cell [] ''N/A'') (map (fillna_cell ''N/A'') r)))))))))
   = clean_cells cols r"
proof (induction cols r rule: clean_cells.induct)
  case (1 c cs v vs)
  have "(if c = ''private_phone'' then str_replace_spaces else id)
          ((if c = ''private_phone'' then str_strip \<circ> astype_str else id)
            ((if c = ''mobile_phone'' then str_replace_spaces else id)
              ((if c = ''mobile_phone'' then str_strip \<circ> astype_str else id)
                ((if c = ''email'' then str_strip \<circ> astype_str else id)
                  ((if c = ''name'' then str_strip \<circ> astype_str else id)
                    ((if c = ''role'' then str_strip \<circ> astype_str else id)
                      ((if c = ''club'' then str_strip \<circ> astype_str else id)
                        (normalize_cell v))))))))
        = clean_cell c v"
    by (simp add: clean_cell_def string_columns_def phone_columns_def)
  then show ?case using 1 by (simp add: normalize_cell_def if_distrib [of "\<lambda>f. f _"] cong: if_cong)
next
  case (2 vs)
  then show ?case by (simp add: normalize_cell_def)
next
  case (3 c cs)
  then show ?case by simp
qed

lemma columns_standardized: "columns (standardized d) = columns d"
  by (simp add: standardized_def string_columns_def phone_columns_def strip_col_eq phone_col_eq
      map_column_def fillna_def replace_value_def)

lemma rows_standardized: "rows (standardized d) = map (clean_cells (columns d)) (rows d)"
  by (simp add: standardized_def string_columns_def phone_columns_def strip_col_eq phone_col_eq
      map_column_def fillna_def replace_value_def clean_cells_steps [symmetric])

lemma columns_clean_data: "columns (clean_data d) = columns d"
  by (simp add: clean_data_eq dropna_all_def columns_standardized)

lemma rows_clean_data:
  "rows (clean_data d) =
     filter (\<lambda>r. \<exists>v \<in> set r. v \<noteq> NaN) (map (clean_cells (columns d)) (rows d))"
  by (simp add: clean_data_eq dropna_all_def rows_standardized)

lemma normalize_cell_idem: "normalize_cell (normalize_cell v) = normalize_cell v"
  by (cases v) (simp_all add: normalize_cell_def replace_cell_def)

lemma stripped_text:
  "\<not> whitespace_only v \<Longrightarrow>
   \<exists>s. str_strip (astype_str (normalize_cell v)) = Str (strip s) \<and> strip s \<noteq> []"
proof (cases v)
  case NaN
  have "strip ''N/A'' = ''N/A''" by (simp add: strip_def isspace_def)
  then have "str_strip (astype_str (normalize_cell v)) = Str (strip ''N/A'') \<and> strip ''N/A'' \<noteq> []"
    using NaN by (simp add: normalize_cell_def replace_cell_def)
  then show ?thesis by blast
next
  case (Str s)
  assume w: "\<not> whitespace_only v"
  show ?thesis
  proof (cases "s = []")
    case True
    have "strip ''N/A'' = ''N/A''" by (simp add: strip_def isspace_def)
    then have "str_strip (astype_str (normalize_cell v)) = Str (strip ''N/A'') \<and> strip ''N/A'' \<noteq> []"
      using Str True by (simp add: normalize_cell_def replace_cell_def)
    then show ?thesis by blast
  next
    case False
    then have "str_strip (astype_str (normalize_cell v)) = Str (strip s) \<and> strip s \<noteq> []"
      using Str w by (simp add: normalize_cell_def replace_cell_def)
    then show ?thesis by blast
  qed
next
  case (Obj s)
  assume "\<not> whitespace_only v"
  then have "str_strip (astype_str (normalize_cell v)) = Str (strip s) \<and> strip s \<noteq> []"
    using Obj by (simp add: normalize_cell_def replace_cell_def)
  then show ?thesis by blast
qed

lemma normalize_nonempty: "t \<noteq> [] \<Longrightarrow> normalize_cell (Str t) = Str t"
  by (simp add: normalize_cell_def replace_cell_def)

lemma clean_cell_idem:
  assumes "c \<in> set CSV_FIELDNAMES \<longrightarrow> \<not> whitespace_only v"
  shows "clean_cell c (clean_cell c v) = clean_cell c v"
proof -
  consider (s) "c \<in> set string_columns" | (p) "c \<notin> set string_columns" "c \<in> set phone_columns"
    | (o) "c \<notin> set string_columns" "c \<notin> set phone_columns" by blast
  then show ?thesis
  proof cases
    case s
    then have "\<not> whitespace_only v"
      using assms by (auto simp: CSV_FIELDNAMES_def string_columns_def)
    then obtain t where t: "str_strip (astype_str (normalize_cell v)) = Str (strip t)" "strip t \<noteq> []"
      using stripped_text by blast
    show ?thesis using s t by (simp add: clean_cell_def normalize_nonempty strip_strip)
  next
    case p
    then have "\<not> whitespace_only v"
      using assms by (auto simp: CSV_FIELDNAMES_def phone_columns_def)
    then obtain t where t: "str_strip (astype_str (normalize_cell v)) = Str (strip t)" "strip t \<noteq> []"
      using stripped_text by blast
    have ne: "sub_spaces (strip t) \<noteq> []" using t(2) by (simp add: sub_spaces_Nil_iff)
    have tr: "strip (sub_spaces (strip t)) = sub_spaces (strip t)"
      by (intro trimmed_strip_id trimmed_sub_spaces trimmed_strip)
    show ?thesis using p t ne by (simp add: clean_cell_def normalize_nonempty tr sub_spaces_idem)
  next
    case o
    then show ?thesis by (simp add: clean_cell_def normalize_cell_idem)
  qed
qed

lemma clean_cells_idem:
  "list_all (\<lambda>(c, v). c \<in> set CSV_FIELDNAMES \<longrightarrow> \<not> whitespace_only v) (zip cols r) \<Longrightarrow>
   clean_cells cols (clean_cells cols r) = clean_cells cols r"
proof (induction cols r rule: clean_cells.induct)
  case (1 c cs v vs)
  then show ?case by (simp add: clean_cell_idem)
next
  case (2 vs)
  then show ?case by (simp add: normalize_cell_idem)
next
  case (3 c cs)
  then show ?case by simp
qed

text \<open>
  Where no cell under a schema label is whitespace only, cleaning a cleaned table changes
  nothing.
\<close>

lemma clean_data_idempotent:
  assumes "no_whitespace_only_cells df"
  shows "clean_data (clean_data df) = clean_data df"
proof -
  let ?keep = "\<lambda>r. \<exists>v \<in> set r. v \<noteq> NaN"
  let ?g = "clean_cells (columns df)"
  have g: "\<forall>r \<in> set (rows df). ?g (?g r) = ?g r"
    using assms by (auto simp: no_whitespace_only_cells_def list_all_iff intro!: clean_cells_idem)
  have "map ?g (filter ?keep (map ?g (rows df))) = filter ?keep (map ?g (rows df))"
    using g by (induction "rows df") (auto simp: filter_map o_def intro!: map_idI)
  then have "rows (clean_data (clean_data df)) = rows (clean_data df)"
    by (simp add: rows_clean_data columns_clean_data)
  moreover have "columns (clean_data (clean_data df)) = columns (clean_data df)"
    by (simp add: columns_clean_data)
  ultimately show ?thesis by (simp add: dataframe.equality)
qed

lemma clean_data_value:
  "clean_data d =
     \<lparr>columns = columns d,
      rows = filter (\<lambda>r. \<exists>v \<in> set r. v \<noteq> NaN) (map (clean_cells (columns d)) (rows d))\<rparr>"
  by (simp add: dataframe.equality rows_clean_data columns_clean_data)

lemmas clean_eval =
  clean_data_value clean_cell_def normalize_cell_def replace_cell_def CSV_FIELDNAMES_def
  string_columns_def phone_columns_def strip_def isspace_def

text \<open>
  Claim C4, at the input where the code departs from it: a row whose six cells are all
  missing is not dropped. \<open>fillna\<close> has filled it with \<open>"N/A"\<close> before \<open>dropna(how="all")\<close>
  runs, so the row comes out as six sentinels.
\<close>

theorem clean_data_keeps_empty_row:
  "clean_data \<lparr>columns = CSV_FIELDNAMES, rows = [[NaN, NaN, NaN, NaN, NaN, NaN]]\<rparr> =
     \<lparr>columns = CSV_FIELDNAMES,
      rows = [[Str ''N/A'', Str ''N/A'', Str ''N/A'', Str ''N/A'', Str ''N/A'', Str ''N/A'']]\<rparr>"
  by (simp add: clean_eval)

text \<open>
  Claim C5, at the input where the code departs from it: a club cell \<open>" "\<close> is no empty
  string when \<open>replace("", "N/A")\<close> runs and is stripped to the empty string afterwards, so
  the cleaned table holds \<open>""\<close>, and cleaning that table again changes the cell to
  \<open>"N/A"\<close>.
\<close>

theorem clean_data_blank_cell:
  "clean_data \<lparr>columns = CSV_FIELDNAMES,
      rows = [[Str '' '', Str ''Coach'', Str ''Ann'', NaN, NaN, NaN]]\<rparr>
     = \<lparr>columns = CSV_FIELDNAMES,
        rows = [[Str [], Str ''Coach'', Str ''Ann'', Str ''N/A'', Str ''N/A'', Str ''N/A'']]\<rparr>
   \<and> clean_data \<lparr>columns = CSV_FIELDNAMES,
      rows = [[Str [], Str ''Coach'', Str ''Ann'', Str ''N/A'', Str ''N/A'', Str ''N/A'']]\<rparr>
     = \<lparr>columns = CSV_FIELDNAMES,
        rows = [[Str ''N/A'', Str ''Coach'', Str ''Ann'', Str ''N/A'', Str ''N/A'', Str ''N/A'']]\<rparr>"
  by (simp add: clean_eval)

lemma clean_data_idempotent_example:
  "no_whitespace_only_cells \<lparr>columns = CSV_FIELDNAMES,
      rows = [[Str '' FC Sion '', Str [], Str ''Ann'', Str ''+41  79 1'', NaN, Obj ''7'']]\<rparr>
   \<and> clean_data (clean_data \<lparr>columns = CSV_FIELDNAMES,
      rows = [[Str '' FC Sion '', Str [], Str ''Ann'', Str ''+41  79 1'', NaN, Obj ''7'']]\<rparr>)
     = clean_data \<lparr>columns = CSV_FIELDNAMES,
      rows = [[Str '' FC Sion '', Str [], Str ''Ann'', Str ''+41  79 1'', NaN, Obj ''7'']]\<rparr>"
proof -
  have h: "no_whitespace_only_cells \<lparr>columns = CSV_FIELDNAMES,
      rows = [[Str '' FC Sion '', Str [], Str ''Ann'', Str ''+41  79 1'', NaN, Obj ''7'']]\<rparr>"
    by (simp add: no_whitespace_only_cells_def CSV_FIELDNAMES_def strip_def isspace_def)
  show ?thesis using h clean_data_idempotent [OF h] by simp
qed

theorem clean_data_leaves_argument_witness:
  "(0::nat) < length [\<lparr>columns = CSV_FIELDNAMES,
        rows = [[Str '' FC Sion '', Str [], Str ''Ann'', Str ''+41  79 1'', NaN, Obj ''7'']]\<rparr>]
   \<and> (case clean_data_on 0 [\<lparr>columns = CSV_FIELDNAMES,
        rows = [[Str '' FC Sion '', Str [], Str ''Ann'', Str ''+41  79 1'', NaN, Obj ''7'']]\<rparr>] of
        (cleaned_df, h') \<Rightarrow>
          h' ! 0 = \<lparr>columns = CSV_FIELDNAMES,
            rows = [[Str '' FC Sion '', Str [], Str ''Ann'', Str ''+41  79 1'', NaN, Obj ''7'']]\<rparr>
          \<and> 1 \<le> cleaned_df
          \<and> h' ! cleaned_df = clean_data \<lparr>columns = CSV_FIELDNAMES,
            rows = [[Str '' FC Sion '', Str [], Str ''Ann'', Str ''+41  79 1'', NaN, Obj ''7'']]\<rparr>)"
  using clean_data_leaves_argument [of 0 "[\<lparr>columns = CSV_FIELDNAMES,
        rows = [[Str '' FC Sion '', Str [], Str ''Ann'', Str ''+41  79 1'', NaN, Obj ''7'']]\<rparr>]"]
  by (simp split: prod.splits)

section \<open>Properties of validation, summary and combination\<close>

lemma collect_all_data_eq:
  "collect_all_data fs = map (\<lambda>f. clean_data (the (read_csv f))) (filter validate_csv_structure fs)"
proof (induction fs)
  case Nil
  then show ?case by simp
next
  case (Cons f fs)
  show ?case
  proof (cases "validate_csv_structure f")
    case True
    then obtain df where "read_csv f = Some df"
      by (auto simp: validate_csv_structure_def split: option.splits)
    then show ?thesis using True Cons by simp
  next
    case False
    then show ?thesis using Cons by simp
  qed
qed

lemma normalize_cell_not_NaN: "normalize_cell v \<noteq> NaN"
  by (cases v) (simp_all add: normalize_cell_def replace_cell_def)

lemma stripped_is_Str: "\<exists>s. str_strip (astype_str (normalize_cell v)) = Str s"
  by (cases v) (simp_all add: normalize_cell_def replace_cell_def)

lemma clean_cell_not_NaN: "clean_cell c v \<noteq> NaN"
proof -
  obtain s where "str_strip (astype_str (normalize_cell v)) = Str s"
    using stripped_is_Str by blast
  then show ?thesis by (simp add: clean_cell_def normalize_cell_not_NaN)
qed

lemma clean_cell_schema_Str:
  assumes "c \<in> set CSV_FIELDNAMES"
  shows "\<exists>s. clean_cell c v = Str s"
proof -
  obtain s where "str_strip (astype_str (normalize_cell v)) = Str s"
    using stripped_is_Str by blast
  then show ?thesis
    using assms by (auto simp: clean_cell_def CSV_FIELDNAMES_def string_columns_def phone_columns_def)
qed

lemma length_clean_cells: "length (clean_cells cols r) = length r"
  by (induction cols r rule: clean_cells.induct) simp_all

lemma clean_cells_keeps:
  assumes "r \<noteq> []"
  shows "\<exists>v \<in> set (clean_cells cols r). v \<noteq> NaN"
proof -
  obtain v vs where r: "r = v # vs" using assms by (cases r) auto
  show ?thesis
    unfolding r by (cases cols) (simp_all add: clean_cell_not_NaN normalize_cell_not_NaN)
qed

lemma rows_clean_data_all:
  assumes "rectangular d" and "columns d \<noteq> []"
  shows "rows (clean_data d) = map (clean_cells (columns d)) (rows d)"
proof -
  have "\<forall>r \<in> set (rows d). r \<noteq> []"
    using assms by (auto simp: rectangular_def list_all_iff)
  then have "\<forall>r \<in> set (map (clean_cells (columns d)) (rows d)). \<exists>v \<in> set r. v \<noteq> NaN"
    by (auto intro: clean_cells_keeps)
  then show ?thesis unfolding rows_clean_data by (simp add: filter_id_conv)
qed

lemma cell_at_clean_cells:
  "length r = length cols \<Longrightarrow> c \<in> set cols \<Longrightarrow>
   \<exists>v. cell_at cols (clean_cells cols r) c = Some (clean_cell c v)"
proof (induction cols r rule: clean_cells.induct)
  case (1 c' cs v vs)
  then show ?case by (cases "c = c'") (auto simp: cell_at_def)
next
  case (2 vs)
  then show ?case by simp
next
  case (3 c' cs)
  then show ?case by simp
qed

lemma rectangular_clean_data:
  assumes "rectangular d"
  shows "rectangular (clean_data d)"
  using assms
  by (auto simp: rectangular_def list_all_iff columns_clean_data rows_clean_data length_clean_cells)

lemma set_foldl_union_columns:
  "set (foldl (\<lambda>acc df. acc @ filter (\<lambda>c. c \<notin> set acc) (columns df)) acc dfs)
     = set acc \<union> (\<Union>d \<in> set dfs. set (columns d))"
  by (induction dfs arbitrary: acc) auto

lemma set_union_columns: "set (union_columns dfs) = (\<Union>d \<in> set dfs. set (columns d))"
  by (simp add: union_columns_def set_foldl_union_columns)

lemma cell_at_map: "cell_at U (map G U) x = (if x \<in> set U then Some (G x) else None)"
  by (simp add: cell_at_def map_of_zip_map)

lemma schema_cell_reindexed:
  assumes "schema_strings d" and "set (columns d) \<subseteq> set U" and "r \<in> set (rows d)"
    and "c \<in> set CSV_FIELDNAMES"
  shows "\<exists>s. cell_at (columns d) r c = Some (Str s)
       \<and> cell_at U (map (\<lambda>c. retype_cell retype c
              (case cell_at (columns d) r c of Some v \<Rightarrow> v | None \<Rightarrow> NaN)) U) c = Some (Str s)"
proof -
  have "c \<in> set U" using assms(1,2,4) unfolding schema_strings_def by blast
  moreover obtain s where "cell_at (columns d) r c = Some (Str s)"
    using assms(1,3,4) unfolding schema_strings_def by blast
  ultimately show ?thesis by (simp add: cell_at_map)
qed

lemma sort_key_of_reindexed:
  assumes "schema_strings d" and "set (columns d) \<subseteq> set U" and "r \<in> set (reindex retype U d)"
  shows "sort_key_of U r \<noteq> None"
proof -
  obtain r0 where r0: "r0 \<in> set (rows d)"
    and r: "r = map (\<lambda>c. retype_cell retype c
              (case cell_at (columns d) r0 c of Some v \<Rightarrow> v | None \<Rightarrow> NaN)) U"
    using assms(3) by (auto simp: reindex_def)
  have k: "\<And>c. c \<in> set CSV_FIELDNAMES \<Longrightarrow> \<exists>s. cell_at U r c = Some (Str s)"
    unfolding r using schema_cell_reindexed [OF assms(1,2) r0] by blast
  obtain a where a: "cell_at U r ''club'' = Some (Str a)"
    using k [of "''club''"] by (auto simp: CSV_FIELDNAMES_def)
  obtain b where b: "cell_at U r ''role'' = Some (Str b)"
    using k [of "''role''"] by (auto simp: CSV_FIELDNAMES_def)
  obtain c where c: "cell_at U r ''name'' = Some (Str c)"
    using k [of "''name''"] by (auto simp: CSV_FIELDNAMES_def)
  show ?thesis by (simp add: sort_key_of_def a b c)
qed

lemma schema_cells_reindexed:
  assumes "schema_strings d" and "set (columns d) \<subseteq> set U"
  shows "map (\<lambda>r. map (map_of (zip U r)) CSV_FIELDNAMES) (reindex retype U d)
       = map (\<lambda>r. map (map_of (zip (columns d) r)) CSV_FIELDNAMES) (rows d)"
proof -
  have "map (map_of (zip U (map (\<lambda>c. retype_cell retype c
              (case cell_at (columns d) r c of Some v \<Rightarrow> v | None \<Rightarrow> NaN)) U))) CSV_FIELDNAMES
        = map (map_of (zip (columns d) r)) CSV_FIELDNAMES"
    if r: "r \<in> set (rows d)" for r
  proof (rule map_cong [OF refl])
    fix c
    assume c: "c \<in> set CSV_FIELDNAMES"
    obtain s where "cell_at (columns d) r c = Some (Str s)"
      and "cell_at U (map (\<lambda>c. retype_cell retype c
              (case cell_at (columns d) r c of Some v \<Rightarrow> v | None \<Rightarrow> NaN)) U) c = Some (Str s)"
      using schema_cell_reindexed [OF assms r c] by blast
    then show "map_of (zip U (map (\<lambda>c. retype_cell retype c
              (case cell_at (columns d) r c of Some v \<Rightarrow> v | None \<Rightarrow> NaN)) U)) c
        = map_of (zip (columns d) r) c"
      by (simp add: cell_at_def)
  qed
  then show ?thesis by (simp add: reindex_def)
qed

lemma sort_values_concat:
  assumes "\<forall>d \<in> set dfs. schema_strings d"
  shows "sort_values (concat_frames retype dfs) =
     Some \<lparr>columns = union_columns dfs,
           rows = sort_key (\<lambda>r. the (sort_key_of (union_columns dfs) r))
                    (concat (map (reindex retype (union_columns dfs)) dfs))\<rparr>"
proof -
  have "\<forall>r \<in> set (concat (map (reindex retype (union_columns dfs)) dfs)).
          sort_key_of (union_columns dfs) r \<noteq> None"
  proof
    fix r
    assume "r \<in> set (concat (map (reindex retype (union_columns dfs)) dfs))"
    then obtain d where d: "d \<in> set dfs" "r \<in> set (reindex retype (union_columns dfs) d)"
      by auto
    have "set (columns d) \<subseteq> set (union_columns dfs)"
      using d(1) by (auto simp: set_union_columns)
    then show "sort_key_of (union_columns dfs) r \<noteq> None"
      using assms d by (intro sort_key_of_reindexed [of d]) auto
  qed
  then show ?thesis by (simp add: sort_values_def concat_frames_def list_all_iff)
qed

lemma length_concat_reindex:
  "length (concat (map (reindex retype U) dfs)) = sum_list (map (\<lambda>d. length (rows d)) dfs)"
  by (induction dfs) (simp_all add: reindex_def)

lemma sort_key_of_cells:
  "sort_key_of cols r = Some (c, ro, n) \<Longrightarrow>
   map_of (zip cols r) ''club'' = Some (Str c)
   \<and> map_of (zip cols r) ''role'' = Some (Str ro)
   \<and> map_of (zip cols r) ''name'' = Some (Str n)"
  by (auto simp: sort_key_of_def cell_at_def split: option.splits cell.splits)

lemma valid_has_frame:
  assumes "validate_csv_structure f"
  obtains df where "read_csv f = Some df" "set CSV_FIELDNAMES \<subseteq> set (columns df)" "rows df \<noteq> []"
  using assms
  by (auto simp: validate_csv_structure_def df_empty_def split: option.splits if_splits)

lemma schema_strings_clean_data:
  assumes "rectangular df" and "set CSV_FIELDNAMES \<subseteq> set (columns df)"
  shows "schema_strings (clean_data df)"
proof -
  have ne: "columns df \<noteq> []" using assms(2) by (auto simp: CSV_FIELDNAMES_def)
  have rows: "rows (clean_data df) = map (clean_cells (columns df)) (rows df)"
    using assms(1) ne by (rule rows_clean_data_all)
  have "\<And>c r. c \<in> set CSV_FIELDNAMES \<Longrightarrow> r \<in> set (rows df) \<Longrightarrow>
      \<exists>s. cell_at (columns df) (clean_cells (columns df) r) c = Some (Str s)"
  proof -
    fix c :: string and r
    assume cs: "c \<in> set CSV_FIELDNAMES" and r: "r \<in> set (rows df)"
    have len: "length r = length (columns df)"
      using assms(1) r by (auto simp: rectangular_def list_all_iff)
    obtain v where "cell_at (columns df) (clean_cells (columns df) r) c = Some (clean_cell c v)"
      using cell_at_clean_cells [OF len] cs assms(2) by blast
    then show "\<exists>s. cell_at (columns df) (clean_cells (columns df) r) c = Some (Str s)"
      using clean_cell_schema_Str [OF cs, of v] by auto
  qed
  then show ?thesis
    unfolding schema_strings_def using assms(2) by (auto simp: rows columns_clean_data)
qed

lemma union_columns_same:
  assumes "dfs \<noteq> []" and "\<forall>d \<in> set dfs. columns d = cols"
  shows "union_columns dfs = cols"
proof -
  have keep: "foldl (\<lambda>acc df. acc @ filter (\<lambda>c. c \<notin> set acc) (columns df)) cols ds = cols"
    if "\<forall>d \<in> set ds. columns d = cols" for ds
    using that by (induction ds) simp_all
  obtain d ds where dfs: "dfs = d # ds" using assms(1) by (cases dfs) auto
  then have "columns d = cols" and "\<forall>d \<in> set ds. columns d = cols"
    using assms(2) by simp_all
  then show ?thesis unfolding union_columns_def dfs using keep [of ds] by simp
qed

lemma reindex_same:
  assumes "schema_strings d" and "rectangular d" and "columns d = CSV_FIELDNAMES"
  shows "reindex retype CSV_FIELDNAMES d = rows d"
proof -
  have "map (\<lambda>c. retype_cell retype c
          (case cell_at (columns d) r c of Some v \<Rightarrow> v | None \<Rightarrow> NaN)) CSV_FIELDNAMES = r"
    if r: "r \<in> set (rows d)" for r
  proof (rule nth_equalityI)
    have len: "length r = length CSV_FIELDNAMES"
      using assms(2,3) r by (auto simp: rectangular_def list_all_iff)
    then show "length (map (\<lambda>c. retype_cell retype c
          (case cell_at (columns d) r c of Some v \<Rightarrow> v | None \<Rightarrow> NaN)) CSV_FIELDNAMES) = length r"
      by simp
    fix i
    assume "i < length (map (\<lambda>c. retype_cell retype c
          (case cell_at (columns d) r c of Some v \<Rightarrow> v | None \<Rightarrow> NaN)) CSV_FIELDNAMES)"
    then have i: "i < length CSV_FIELDNAMES" by simp
    have "distinct CSV_FIELDNAMES" by (simp add: CSV_FIELDNAMES_def)
    then have at: "cell_at (columns d) r (CSV_FIELDNAMES ! i) = Some (r ! i)"
      unfolding cell_at_def assms(3) using len i by (intro map_of_zip_nth) simp_all
    obtain s where "cell_at (columns d) r (CSV_FIELDNAMES ! i) = Some (Str s)"
      using assms(1) r i unfolding schema_strings_def by (meson nth_mem)
    then show "map (\<lambda>c. retype_cell retype c
          (case cell_at (columns d) r c of Some v \<Rightarrow> v | None \<Rightarrow> NaN)) CSV_FIELDNAMES ! i = r ! i"
      using at i by simp
  qed
  then show ?thesis unfolding reindex_def by (rule map_idI)
qed

text \<open>
  Claim C7. In single-sheet mode, when no file is valid the combination returns \<open>False\<close> and
  writes nothing, and so does \<open>combine_csv_files_to_xlsx\<close>. Otherwise it passes one table to
  \<open>to_excel\<close>, as the sheet \<open>All Clubs\<close>. That table has as many rows as the valid files have
  data rows together: 8 for files of 3 and of 5 records. Its rows, read in the six schema
  columns, are exactly the rows of the cleaned tables of the valid files read in those
  columns, each as often as it occurs there. In every row the cells under \<open>club\<close>, \<open>role\<close>
  and \<open>name\<close> are strings, and the rows stand in ascending order of these three strings,
  compared in this order. When the valid files have the six schema columns and no other, as
  the files that \<open>save_to_csv\<close> writes do, the table has these columns and its rows are
  the rows of the cleaned tables, each as often as it occurs there. The tables read from the
  files are taken to be rectangular, as \<open>read_csv\<close> builds them.
\<close>

theorem single_sheet_combination:
  assumes "\<forall>f \<in> set csv_files. \<forall>df. read_csv f = Some df \<longrightarrow> rectangular df"
  shows "let valid = filter validate_csv_structure csv_files
         in if valid = []
            then combine_to_single_sheet retype save csv_files = (Returned False, [])
               \<and> combine_csv_files_to_xlsx retype save csv_files False = (False, [])
            else (\<exists>combined_df keys.
                    combine_to_single_sheet retype save csv_files =
                      (if save [(''All Clubs'', combined_df)] then Returned True else Raised,
                       [(''All Clubs'', combined_df)])
                  \<and> length (rows combined_df)
                      = sum_list (map (\<lambda>f. length (rows (the (read_csv f)))) valid)
                  \<and> mset (map (\<lambda>r. map (map_of (zip (columns combined_df) r)) CSV_FIELDNAMES)
                            (rows combined_df))
                      = mset (concat (map (\<lambda>f.
                           map (\<lambda>r. map (map_of (zip (columns (the (read_csv f))) r)) CSV_FIELDNAMES)
                             (rows (clean_data (the (read_csv f))))) valid))
                  \<and> list_all2 (\<lambda>r (c, ro, n).
                        map_of (zip (columns combined_df) r) ''club'' = Some (Str c)
                        \<and> map_of (zip (columns combined_df) r) ''role'' = Some (Str ro)
                        \<and> map_of (zip (columns combined_df) r) ''name'' = Some (Str n))
                      (rows combined_df) keys
                  \<and> sorted keys
                  \<and> ((\<forall>f \<in> set valid. columns (the (read_csv f)) = CSV_FIELDNAMES) \<longrightarrow>
                       columns combined_df = CSV_FIELDNAMES
                       \<and> mset (rows combined_df)
                           = mset (concat (map (\<lambda>f. rows (clean_data (the (read_csv f)))) valid))))"
proof -
  define valid where "valid = filter validate_csv_structure csv_files"
  define cleaned where "cleaned = map (\<lambda>f. clean_data (the (read_csv f))) valid"
  define U where "U = union_columns cleaned"
  define k where "k = (\<lambda>r. the (sort_key_of U r))"
  define X where "X = concat (map (reindex retype U) cleaned)"
  define T where "T = \<lparr>columns = U, rows = sort_key k X\<rparr>"
  let ?six = "\<lambda>cols r. map (map_of (zip cols r)) CSV_FIELDNAMES"
  have all_data: "collect_all_data csv_files = cleaned"
    by (simp add: collect_all_data_eq cleaned_def valid_def)
  have frames: "\<And>f. f \<in> set valid \<Longrightarrow>
      schema_strings (clean_data (the (read_csv f)))
      \<and> rectangular (clean_data (the (read_csv f)))
      \<and> length (rows (clean_data (the (read_csv f)))) = length (rows (the (read_csv f)))"
  proof -
    fix f
    assume f: "f \<in> set valid"
    then have v: "validate_csv_structure f" and m: "f \<in> set csv_files"
      by (simp_all add: valid_def)
    from v obtain df where df: "read_csv f = Some df" "set CSV_FIELDNAMES \<subseteq> set (columns df)"
      by (rule valid_has_frame)
    have rect: "rectangular df" using assms m df(1) by blast
    have ne: "columns df \<noteq> []" using df(2) by (auto simp: CSV_FIELDNAMES_def)
    have "length (rows (clean_data df)) = length (rows df)"
      by (simp add: rows_clean_data_all [OF rect ne])
    then show "schema_strings (clean_data (the (read_csv f)))
      \<and> rectangular (clean_data (the (read_csv f)))
      \<and> length (rows (clean_data (the (read_csv f)))) = length (rows (the (read_csv f)))"
      using schema_strings_clean_data [OF rect df(2)] rectangular_clean_data [OF rect] df(1)
      by simp
  qed
  have strings: "\<forall>d \<in> set cleaned. schema_strings d"
    using frames by (auto simp: cleaned_def)
  have sorted_T: "sort_values (concat_frames retype cleaned) = Some T"
    unfolding T_def k_def U_def X_def by (rule sort_values_concat [OF strings])
  have some_key: "\<forall>r \<in> set X. sort_key_of U r \<noteq> None"
    using sorted_T
    by (auto simp: sort_values_def concat_frames_def list_all_iff X_def U_def split: if_splits)
  have len: "length (rows T) = sum_list (map (\<lambda>f. length (rows (the (read_csv f)))) valid)"
  proof -
    have "length (rows T) = sum_list (map (\<lambda>d. length (rows d)) cleaned)"
      by (simp add: T_def X_def length_concat_reindex)
    also have "\<dots> = sum_list (map (\<lambda>f. length (rows (the (read_csv f)))) valid)"
      unfolding cleaned_def map_map o_def
      using frames by (intro arg_cong [of _ _ sum_list] map_cong) auto
    finally show ?thesis .
  qed
  have contents: "mset (map (?six (columns T)) (rows T))
      = mset (concat (map (\<lambda>f. map (?six (columns (the (read_csv f))))
                                  (rows (clean_data (the (read_csv f))))) valid))"
  proof -
    have one: "map (?six U) (reindex retype U d) = map (?six (columns d)) (rows d)"
      if "d \<in> set cleaned" for d
    proof -
      have "set (columns d) \<subseteq> set U" using that by (auto simp: U_def set_union_columns)
      then show ?thesis using strings that by (intro schema_cells_reindexed) auto
    qed
    have "mset (map (?six (columns T)) (rows T)) = mset (map (?six U) X)"
      by (simp add: T_def)
    also have "map (?six U) X = concat (map (\<lambda>d. map (?six U) (reindex retype U d)) cleaned)"
      by (simp add: X_def map_concat o_def)
    also have "\<dots> = concat (map (\<lambda>d. map (?six (columns d)) (rows d)) cleaned)"
    proof -
      have "map (\<lambda>d. map (?six U) (reindex retype U d)) cleaned
          = map (\<lambda>d. map (?six (columns d)) (rows d)) cleaned"
        by (rule map_cong [OF refl]) (rule one)
      then show ?thesis by (rule arg_cong)
    qed
    also have "\<dots> = concat (map (\<lambda>f. map (?six (columns (the (read_csv f))))
                                  (rows (clean_data (the (read_csv f))))) valid)"
      by (simp add: cleaned_def o_def columns_clean_data)
    finally show ?thesis .
  qed
  have keyed: "list_all2 (\<lambda>r (c, ro, n).
        map_of (zip (columns T) r) ''club'' = Some (Str c)
        \<and> map_of (zip (columns T) r) ''role'' = Some (Str ro)
        \<and> map_of (zip (columns T) r) ''name'' = Some (Str n))
      (rows T) (map k (rows T))"
  proof -
    have "case k r of (c, ro, n) \<Rightarrow>
        map_of (zip U r) ''club'' = Some (Str c)
        \<and> map_of (zip U r) ''role'' = Some (Str ro)
        \<and> map_of (zip U r) ''name'' = Some (Str n)"
      if "r \<in> set (rows T)" for r
    proof -
      have "r \<in> set X" using that by (simp add: T_def)
      then obtain c ro n where "sort_key_of U r = Some (c, ro, n)"
        using some_key by (metis not_None_eq prod_cases3)
      then show ?thesis using sort_key_of_cells [of U r c ro n] by (simp add: k_def)
    qed
    then show ?thesis by (simp add: list_all2_map2 list_all2_same T_def)
  qed
  have srt: "sorted (map k (rows T))"
    by (simp add: T_def sorted_sort_key)
  have schema_only: "columns T = CSV_FIELDNAMES
      \<and> mset (rows T) = mset (concat (map (\<lambda>f. rows (clean_data (the (read_csv f)))) valid))"
    if ne: "valid \<noteq> []" and same: "\<forall>f \<in> set valid. columns (the (read_csv f)) = CSV_FIELDNAMES"
  proof -
    have cols: "\<forall>d \<in> set cleaned. columns d = CSV_FIELDNAMES"
      using same by (auto simp: cleaned_def columns_clean_data)
    have "cleaned \<noteq> []" using ne by (simp add: cleaned_def)
    then have U: "U = CSV_FIELDNAMES"
      unfolding U_def using cols by (rule union_columns_same)
    have "map (reindex retype U) cleaned = map rows cleaned"
    proof (rule map_cong [OF refl])
      fix d
      assume d: "d \<in> set cleaned"
      then have "schema_strings d" and "rectangular d"
        using frames by (auto simp: cleaned_def)
      then show "reindex retype U d = rows d"
        unfolding U using cols d by (intro reindex_same) auto
    qed
    then have "X = concat (map rows cleaned)" unfolding X_def by (rule arg_cong)
    then show ?thesis by (simp add: T_def U cleaned_def o_def)
  qed
  show ?thesis
  proof (cases "valid = []")
    case True
    then have "combine_to_single_sheet retype save csv_files = (Returned False, [])"
      by (simp add: combine_to_single_sheet_def all_data cleaned_def)
    then show ?thesis
      using True by (simp add: valid_def [symmetric] combine_csv_files_to_xlsx_def)
  next
    case False
    then have "cleaned \<noteq> []" by (simp add: cleaned_def)
    then have "combine_to_single_sheet retype save csv_files =
        (if save [(''All Clubs'', T)] then Returned True else Raised, [(''All Clubs'', T)])"
      by (simp add: combine_to_single_sheet_def all_data sorted_T)
    then have "\<exists>combined_df keys.
        combine_to_single_sheet retype save csv_files =
          (if save [(''All Clubs'', combined_df)] then Returned True else Raised,
           [(''All Clubs'', combined_df)])
        \<and> length (rows combined_df)
            = sum_list (map (\<lambda>f. length (rows (the (read_csv f)))) valid)
        \<and> mset (map (?six (columns combined_df)) (rows combined_df))
            = mset (concat (map (\<lambda>f. map (?six (columns (the (read_csv f))))
                                  (rows (clean_data (the (read_csv f))))) valid))
        \<and> list_all2 (\<lambda>r (c, ro, n).
              map_of (zip (columns combined_df) r) ''club'' = Some (Str c)
              \<and> map_of (zip (columns combined_df) r) ''role'' = Some (Str ro)
              \<and> map_of (zip (columns combined_df) r) ''name'' = Some (Str n))
            (rows combined_df) keys
        \<and> sorted keys
        \<and> ((\<forall>f \<in> set valid. columns (the (read_csv f)) = CSV_FIELDNAMES) \<longrightarrow>
             columns combined_df = CSV_FIELDNAMES
             \<and> mset (rows combined_df)
                 = mset (concat (map (\<lambda>f. rows (clean_data (the (read_csv f)))) valid)))"
      using len contents keyed srt schema_only [OF False] by blast
    then show ?thesis
      using False unfolding valid_def Let_def by simp
  qed
qed

lemma single_sheet_example:
  "combine_to_single_sheet (\<lambda>col s. s) (\<lambda>calls. True) [file_of_three, file_of_five]
     = (Returned True, [(''All Clubs'', combined_example)])"
proof -
  have valid: "validate_csv_structure file_of_three" "validate_csv_structure file_of_five"
    by (simp_all add: validate_csv_structure_def file_of_three_def file_of_five_def df_empty_def
        CSV_FIELDNAMES_def)
  have three: "clean_data (the (read_csv file_of_three)) = cleaned_three"
    by (simp add: file_of_three_def cleaned_three_def clean_eval)
  have five: "clean_data (the (read_csv file_of_five)) = cleaned_five"
    by (simp add: file_of_five_def cleaned_five_def clean_eval)
  have all_data: "collect_all_data [file_of_three, file_of_five] = [cleaned_three, cleaned_five]"
    using valid three five by (simp add: file_of_three_def file_of_five_def)
  have joined: "concat_frames (\<lambda>col s. s) [cleaned_three, cleaned_five]
      = \<lparr>columns = CSV_FIELDNAMES, rows = rows cleaned_three @ rows cleaned_five\<rparr>"
    by (simp add: concat_frames_def union_columns_def reindex_def cell_at_def cleaned_three_def
        cleaned_five_def CSV_FIELDNAMES_def)
  have ordered: "sort_values \<lparr>columns = CSV_FIELDNAMES, rows = rows cleaned_three @ rows cleaned_five\<rparr>
      = Some combined_example"
    by (simp add: sort_values_def sort_key_of_def cell_at_def cleaned_three_def cleaned_five_def
        combined_example_def CSV_FIELDNAMES_def)
  show ?thesis
    unfolding combine_to_single_sheet_def all_data Let_def joined ordered by simp
qed

theorem single_sheet_combination_witness:
  "combine_to_single_sheet (\<lambda>col s. s) (\<lambda>calls. True) [file_of_three, file_of_five]
     = (Returned True, [(''All Clubs'', combined_example)])
   \<and> length (rows combined_example) = 8
   \<and> sorted
       [(''FC Bramois'', ''Assistant'', ''Ann''), (''FC Bramois'', ''Assistant'', ''Ben''),
        (''FC Bramois'', ''Coach'', ''Cat''), (''FC Bramois'', ''Trainer'', ''Dan''),
        (''FC Bramois'', ''Trainer'', ''Eve''), (''FC Sion'', ''Assistant'', ''Amy''),
        (''FC Sion'', ''Trainer'', ''Bob''), (''FC Sion'', ''Trainer'', ''Zed'')]"
proof -
  have rect: "\<forall>f \<in> set [file_of_three, file_of_five]. \<forall>df. read_csv f = Some df \<longrightarrow> rectangular df"
    by (auto simp: file_of_three_def file_of_five_def rectangular_def CSV_FIELDNAMES_def)
  have valid: "filter validate_csv_structure [file_of_three, file_of_five] = [file_of_three, file_of_five]"
    by (simp add: validate_csv_structure_def file_of_three_def file_of_five_def df_empty_def
        CSV_FIELDNAMES_def)
  have count: "sum_list (map (\<lambda>f. length (rows (the (read_csv f)))) [file_of_three, file_of_five]) = 8"
    by (simp add: file_of_three_def file_of_five_def)
  obtain combined_df keys where
    call: "combine_to_single_sheet (\<lambda>col s. s) (\<lambda>calls. True) [file_of_three, file_of_five]
        = (Returned True, [(''All Clubs'', combined_df)])"
    and facts: "length (rows combined_df) = 8"
      "list_all2 (\<lambda>r (c, ro, n).
           map_of (zip (columns combined_df) r) ''club'' = Some (Str c)
           \<and> map_of (zip (columns combined_df) r) ''role'' = Some (Str ro)
           \<and> map_of (zip (columns combined_df) r) ''name'' = Some (Str n))
         (rows combined_df) keys"
      "sorted keys"
    using single_sheet_combination [OF rect, of "\<lambda>col s. s" "\<lambda>calls. True"]
    unfolding Let_def valid count by auto
  have same: "combined_df = combined_example"
    using call unfolding single_sheet_example by simp
  have "keys =
       [(''FC Bramois'', ''Assistant'', ''Ann''), (''FC Bramois'', ''Assistant'', ''Ben''),
        (''FC Bramois'', ''Coach'', ''Cat''), (''FC Bramois'', ''Trainer'', ''Dan''),
        (''FC Bramois'', ''Trainer'', ''Eve''), (''FC Sion'', ''Assistant'', ''Amy''),
        (''FC Sion'', ''Trainer'', ''Bob''), (''FC Sion'', ''Trainer'', ''Zed'')]"
    using facts(2) unfolding same
    by (auto simp: combined_example_def CSV_FIELDNAMES_def list_all2_Cons1)
  then show ?thesis using facts(1,3) same single_sheet_example by simp
qed

lemma summarize_invalid:
  "\<not> validate_csv_structure f \<Longrightarrow>
   summarize_file s f = s\<lparr>files_with_errors := files_with_errors s @ [file_name f]\<rparr>"
  by (simp add: summarize_file_def)

lemma summarize_file_fields:
  assumes "clubs s = clubs s'" and "total_trainers s = total_trainers s'"
  shows "clubs (summarize_file s g) = clubs (summarize_file s' g)
       \<and> total_trainers (summarize_file s g) = total_trainers (summarize_file s' g)"
  using assms by (simp add: summarize_file_def split: option.splits)

lemma files_with_errors_grows:
  "set (files_with_errors s) \<subseteq> set (files_with_errors (summarize_file s g))"
  by (auto simp: summarize_file_def split: option.splits)

lemma files_with_errors_foldl:
  "set (files_with_errors s) \<subseteq> set (files_with_errors (foldl summarize_file s fs))"
proof (induction fs arbitrary: s)
  case Nil
  then show ?case by simp
next
  case (Cons g fs)
  have "set (files_with_errors s) \<subseteq> set (files_with_errors (summarize_file s g))"
    by (rule files_with_errors_grows)
  also have "\<dots> \<subseteq> set (files_with_errors (foldl summarize_file (summarize_file s g) fs))"
    by (rule Cons.IH)
  finally show ?case by simp
qed

lemma invalid_in_files_with_errors:
  "f \<in> set fs \<Longrightarrow> \<not> validate_csv_structure f \<Longrightarrow>
   file_name f \<in> set (files_with_errors (foldl summarize_file s fs))"
proof (induction fs arbitrary: s)
  case Nil
  then show ?case by simp
next
  case (Cons g fs)
  show ?case
  proof (cases "g = f")
    case True
    have "file_name f \<in> set (files_with_errors (summarize_file s f))"
      using Cons.prems(2) by (simp add: summarize_invalid)
    then show ?thesis
      using True files_with_errors_foldl [of "summarize_file s f" fs] by auto
  next
    case False
    then have "f \<in> set fs" using Cons.prems(1) by simp
    then show ?thesis using Cons.IH Cons.prems(2) by simp
  qed
qed

lemma summary_without_invalid:
  assumes "\<not> validate_csv_structure f"
  shows "clubs s = clubs s' \<Longrightarrow> total_trainers s = total_trainers s' \<Longrightarrow>
     clubs (foldl summarize_file s fs) = clubs (foldl summarize_file s' (filter (\<lambda>g. g \<noteq> f) fs))
     \<and> total_trainers (foldl summarize_file s fs)
         = total_trainers (foldl summarize_file s' (filter (\<lambda>g. g \<noteq> f) fs))"
proof (induction fs arbitrary: s s')
  case Nil
  then show ?case by simp
next
  case (Cons g fs)
  show ?case
  proof (cases "g = f")
    case True
    have "clubs (summarize_file s f) = clubs s'"
      and "total_trainers (summarize_file s f) = total_trainers s'"
      using assms Cons.prems by (simp_all add: summarize_invalid)
    then show ?thesis using True Cons.IH by simp
  next
    case False
    have "clubs (summarize_file s g) = clubs (summarize_file s' g)"
      and "total_trainers (summarize_file s g) = total_trainers (summarize_file s' g)"
      using summarize_file_fields [OF Cons.prems] by simp_all
    then show ?thesis using False Cons.IH by simp
  qed
qed

lemma separate_sheets_without_invalid:
  "\<not> validate_csv_structure f \<Longrightarrow>
   separate_sheets fs = separate_sheets (filter (\<lambda>g. g \<noteq> f) fs)"
  by (induction fs) (auto split: option.splits)

lemma collect_all_data_without_invalid:
  "\<not> validate_csv_structure f \<Longrightarrow>
   collect_all_data fs = collect_all_data (filter (\<lambda>g. g \<noteq> f) fs)"
  by (induction fs) (auto split: option.splits)

text \<open>
  Claim C8. A file that parses but lacks a schema column, or has no data row, is invalid: its
  name is in the list \<open>files_with_errors\<close> of the summary, the summary counts the clubs and
  trainers of the other files only, both combination modes give what they give without the
  file, and converting it alone fails.
\<close>

theorem invalid_file_excluded:
  assumes "f \<in> set csv_files"
    and "read_csv f = Some df"
    and "\<not> set CSV_FIELDNAMES \<subseteq> set (columns df) \<or> rows df = []"
  shows "\<not> validate_csv_structure f
       \<and> file_name f \<in> set (files_with_errors (get_data_summary csv_files))
       \<and> clubs (get_data_summary csv_files)
           = clubs (get_data_summary (filter (\<lambda>g. g \<noteq> f) csv_files))
       \<and> total_trainers (get_data_summary csv_files)
           = total_trainers (get_data_summary (filter (\<lambda>g. g \<noteq> f) csv_files))
       \<and> combine_to_separate_sheets save csv_files
           = combine_to_separate_sheets save (filter (\<lambda>g. g \<noteq> f) csv_files)
       \<and> combine_to_single_sheet retype save csv_files
           = combine_to_single_sheet retype save (filter (\<lambda>g. g \<noteq> f) csv_files)
       \<and> convert_csv_to_xlsx save f = (False, [])"
proof -
  have inv: "\<not> validate_csv_structure f"
    using assms(2,3) by (auto simp: validate_csv_structure_def df_empty_def)
  have listed: "file_name f \<in> set (files_with_errors (get_data_summary csv_files))"
    unfolding get_data_summary_def using assms(1) inv by (rule invalid_in_files_with_errors)
  have counted: "clubs (get_data_summary csv_files)
        = clubs (get_data_summary (filter (\<lambda>g. g \<noteq> f) csv_files))
      \<and> total_trainers (get_data_summary csv_files)
        = total_trainers (get_data_summary (filter (\<lambda>g. g \<noteq> f) csv_files))"
    unfolding get_data_summary_def by (rule summary_without_invalid [OF inv]) simp_all
  have sep: "combine_to_separate_sheets save csv_files
      = combine_to_separate_sheets save (filter (\<lambda>g. g \<noteq> f) csv_files)"
    using separate_sheets_without_invalid [OF inv, of csv_files]
    by (simp add: combine_to_separate_sheets_def)
  have single: "combine_to_single_sheet retype save csv_files
      = combine_to_single_sheet retype save (filter (\<lambda>g. g \<noteq> f) csv_files)"
    using collect_all_data_without_invalid [OF inv, of csv_files]
    by (simp add: combine_to_single_sheet_def)
  have conv: "convert_csv_to_xlsx save f = (False, [])"
    using inv by (simp add: convert_csv_to_xlsx_def)
  show ?thesis using inv listed counted sep single conv by blast
qed

theorem invalid_file_excluded_witness:
  "''FC Erde.csv'' \<in> set (files_with_errors
      (get_data_summary [file_of_three, file_without_email, file_header_only]))
   \<and> ''FC Riddes.csv'' \<in> set (files_with_errors
      (get_data_summary [file_of_three, file_without_email, file_header_only]))
   \<and> combine_to_single_sheet (\<lambda>col s. s) (\<lambda>calls. True) [file_of_three, file_without_email, file_header_only]
       = combine_to_single_sheet (\<lambda>col s. s) (\<lambda>calls. True) [file_of_three, file_header_only]
   \<and> combine_to_separate_sheets (\<lambda>calls. True) [file_of_three, file_without_email, file_header_only]
       = combine_to_separate_sheets (\<lambda>calls. True) [file_of_three, file_header_only]"
proof -
  have m: "file_without_email \<in> set [file_of_three, file_without_email, file_header_only]"
    by simp
  have r: "read_csv file_without_email =
      Some \<lparr>columns = [''club'', ''role'', ''name'', ''mobile_phone'', ''private_phone''],
        rows = [[Str ''FC Erde'', Str ''Trainer'', Str ''Kim'', NaN, NaN]]\<rparr>"
    by (simp add: file_without_email_def)
  have c: "\<not> set CSV_FIELDNAMES \<subseteq> set (columns
        \<lparr>columns = [''club'', ''role'', ''name'', ''mobile_phone'', ''private_phone''],
          rows = [[Str ''FC Erde'', Str ''Trainer'', Str ''Kim'', NaN, NaN]]\<rparr>)
      \<or> rows \<lparr>columns = [''club'', ''role'', ''name'', ''mobile_phone'', ''private_phone''],
          rows = [[Str ''FC Erde'', Str ''Trainer'', Str ''Kim'', NaN, NaN]]\<rparr> = []"
    by (simp add: CSV_FIELDNAMES_def)
  have others: "filter (\<lambda>g. g \<noteq> file_without_email) [file_of_three, file_without_email, file_header_only]
      = [file_of_three, file_header_only]"
    by (simp add: file_of_three_def file_without_email_def file_header_only_def)
  have n: "file_name file_without_email = ''FC Erde.csv''"
    by (simp add: file_name_def file_without_email_def)
  have m': "file_header_only \<in> set [file_of_three, file_without_email, file_header_only]"
    by simp
  have r': "read_csv file_header_only = Some \<lparr>columns = CSV_FIELDNAMES, rows = []\<rparr>"
    by (simp add: file_header_only_def)
  have c': "\<not> set CSV_FIELDNAMES \<subseteq> set (columns \<lparr>columns = CSV_FIELDNAMES, rows = []\<rparr>)
      \<or> rows \<lparr>columns = CSV_FIELDNAMES, rows = []\<rparr> = []"
    by simp
  have n': "file_name file_header_only = ''FC Riddes.csv''"
    by (simp add: file_name_def file_header_only_def)
  show ?thesis
    using invalid_file_excluded [OF m r c, of "\<lambda>calls. True" "\<lambda>col s. s"]
      invalid_file_excluded [OF m' r' c', of "\<lambda>calls. True" "\<lambda>col s. s"]
    unfolding others n n' by simp
qed

section \<open>Properties of the extractor\<close>

lemma re_search_leftmost:
  "\<forall>i < length pre. m (drop i (pre @ s)) = None \<Longrightarrow> m s = Some r \<Longrightarrow>
   re_search m (pre @ s) = Some r"
proof (induction pre)
  case Nil
  then show ?case by (cases s) simp_all
next
  case (Cons c pre)
  have "m (drop 0 ((c # pre) @ s)) = None" using Cons.prems(1) by blast
  then have here: "m (c # pre @ s) = None" by simp
  have "\<forall>i < length pre. m (drop i (pre @ s)) = None"
  proof (intro allI impI)
    fix i
    assume "i < length pre"
    then have "m (drop (Suc i) ((c # pre) @ s)) = None" using Cons.prems(1) by auto
    then show "m (drop i (pre @ s)) = None" by simp
  qed
  then have "re_search m (pre @ s) = Some r" using Cons.IH Cons.prems(2) by blast
  then show ?case using here by simp
qed

lemma re_search_None:
  "\<forall>i \<le> length s. m (drop i s) = None \<Longrightarrow> re_search m s = None"
proof (induction s)
  case Nil
  then show ?case by simp
next
  case (Cons c s)
  have "m (drop 0 (c # s)) = None" using Cons.prems by blast
  then have here: "m (c # s) = None" by simp
  have "\<forall>i \<le> length s. m (drop i s) = None"
  proof (intro allI impI)
    fix i
    assume "i \<le> length s"
    then have "m (drop (Suc i) (c # s)) = None" using Cons.prems by auto
    then show "m (drop i s) = None" by simp
  qed
  then show ?case using Cons.IH here by simp
qed

lemma re_search_Some:
  "re_search m s = Some r \<Longrightarrow> \<exists>i \<le> length s. m (drop i s) = Some r"
proof (induction s)
  case Nil
  then show ?case by simp
next
  case (Cons c s)
  show ?case
  proof (cases "m (c # s)")
    case None
    then have "re_search m s = Some r" using Cons.prems by simp
    then obtain i where "i \<le> length s" "m (drop i s) = Some r" using Cons.IH by blast
    then have "Suc i \<le> length (c # s) \<and> m (drop (Suc i) (c # s)) = Some r" by simp
    then show ?thesis by blast
  next
    case (Some r')
    then have "m (drop 0 (c # s)) = Some r" using Cons.prems by simp
    then show ?thesis by blast
  qed
qed

lemma literal_append: "literal p (p @ s) = Some s"
  by (simp add: literal_def startswith_def)

lemma dropWhile_run:
  "\<forall>c \<in> set ws. P c \<Longrightarrow> \<not> P y \<Longrightarrow> dropWhile P (ws @ y # ys) = y # ys"
  by (induction ws) simp_all

lemma takeWhile_run:
  "\<forall>c \<in> set body. P c \<Longrightarrow> rest = [] \<or> \<not> P (hd rest) \<Longrightarrow>
   takeWhile P (body @ rest) = body"
  by (induction body) (auto simp: takeWhile_eq_Nil_iff)

lemma phone_here_match:
  assumes "\<forall>c \<in> set ws1. isspace c" and "\<forall>c \<in> set ws2. isspace c"
    and "body \<noteq> []" and "\<forall>c \<in> set body. phone_char c"
    and "rest = [] \<or> \<not> phone_char (hd rest)"
  shows "phone_here label (label @ ws1 @ '':'' @ ws2 @ ''+'' @ body @ rest) = Some (''+'' @ body)"
proof -
  have colon: "\<not> isspace CHR '':''" and plus: "\<not> isspace CHR ''+''"
    by (simp_all add: isspace_def)
  have 1: "dropWhile isspace (ws1 @ '':'' @ ws2 @ ''+'' @ body @ rest)
      = '':'' @ ws2 @ ''+'' @ body @ rest"
    using dropWhile_run [OF assms(1) colon] by simp
  have 2: "dropWhile isspace (ws2 @ ''+'' @ body @ rest) = ''+'' @ body @ rest"
    using dropWhile_run [OF assms(2) plus] by simp
  have 3: "takeWhile phone_char (body @ rest) = body"
    using assms(4,5) by (rule takeWhile_run)
  have l1: "literal '':'' ('':'' @ ws2 @ ''+'' @ body @ rest) = Some (ws2 @ ''+'' @ body @ rest)"
    by (rule literal_append)
  have l2: "literal ''+'' (''+'' @ body @ rest) = Some (body @ rest)"
    by (rule literal_append)
  show ?thesis
    unfolding phone_here_def literal_append 1 option.case l1 2 l2 3 using assms(3) by simp
qed

lemma phone_here_needs_label: "phone_here label s = Some g \<Longrightarrow> startswith s label"
  by (auto simp: phone_here_def literal_def split: option.splits if_splits)

lemma phone_here_plus: "phone_here label s = Some g \<Longrightarrow> \<exists>body. g = CHR ''+'' # body"
  by (auto simp: phone_here_def split: option.splits if_splits)

lemma strip_nonempty: "\<not> isspace c \<Longrightarrow> strip (c # s) \<noteq> []"
proof -
  assume c: "\<not> isspace c"
  have "dropWhile isspace (rev s @ [c]) \<noteq> []"
    using c by (simp add: dropWhile_append)
  then show ?thesis using c by (simp add: strip_def)
qed

lemma phones_of_text_fields:
  "phones_of_text t ''private_phone'' =
     Some (case re_search (phone_here PRIVATE_LABEL) t of Some g \<Rightarrow> strip g | None \<Rightarrow> ''N/A'')"
  "phones_of_text t ''mobile_phone'' =
     Some (case re_search (phone_here MOBILE_LABEL) t of Some g \<Rightarrow> strip g | None \<Rightarrow> ''N/A'')"
  by (simp_all add: phones_of_text_def Let_def split: option.splits)

lemma dom_phones_of_text: "dom (phones_of_text t) = {''mobile_phone'', ''private_phone''}"
  by (auto simp: phones_of_text_def Let_def split: option.splits if_splits)

text \<open>
  Claim C3, as amended. Each of the two phone fields depends on its own label alone. With
  fewer than two \<open>div.col-md-6\<close> blocks the field is \<open>"N/A"\<close>. When the text of the second
  block holds, at the leftmost place where the pattern matches, the label, optional
  whitespace, a colon, optional whitespace, a \<open>+\<close> and then a longest non-empty run of
  digits, whitespace and parentheses, the field is the \<open>+\<close> with that run, stripped. When
  the pattern matches nowhere in the text, the field is \<open>"N/A"\<close>.
\<close>

theorem phone_extraction:
  assumes "(label, field) \<in> {(PRIVATE_LABEL, ''private_phone''), (MOBILE_LABEL, ''mobile_phone'')}"
  shows "(length (select (is_tag ''div'' [''col-md-6'']) data_row) \<le> 1
            \<longrightarrow> extract_phone_numbers data_row field = Some ''N/A'')
       \<and> (select (is_tag ''div'' [''col-md-6'']) data_row = d0 # d1 # ds
            \<and> get_text '' '' d1 = pre @ label @ ws1 @ '':'' @ ws2 @ ''+'' @ body @ rest
            \<and> (\<forall>c \<in> set ws1. isspace c) \<and> (\<forall>c \<in> set ws2. isspace c)
            \<and> body \<noteq> [] \<and> (\<forall>c \<in> set body. phone_char c)
            \<and> (rest = [] \<or> \<not> phone_char (hd rest))
            \<and> (\<forall>i < length pre. phone_here label (drop i (get_text '' '' d1)) = None)
            \<longrightarrow> extract_phone_numbers data_row field = Some (strip (''+'' @ body)))
       \<and> (select (is_tag ''div'' [''col-md-6'']) data_row = d0 # d1 # ds
            \<and> (\<forall>i \<le> length (get_text '' '' d1). phone_here label (drop i (get_text '' '' d1)) = None)
            \<longrightarrow> extract_phone_numbers data_row field = Some ''N/A'')"
proof -
  let ?divs = "select (is_tag ''div'' [''col-md-6'']) data_row"
  have field: "\<And>t. phones_of_text t field =
      Some (case re_search (phone_here label) t of Some g \<Rightarrow> strip g | None \<Rightarrow> ''N/A'')"
    using assms phones_of_text_fields by auto
  have few: "length ?divs \<le> 1 \<longrightarrow> extract_phone_numbers data_row field = Some ''N/A''"
    using assms by (auto simp: extract_phone_numbers_def Let_def)
  have second: "?divs = d0 # d1 # ds \<Longrightarrow>
      extract_phone_numbers data_row field =
        Some (case re_search (phone_here label) (get_text '' '' d1) of
                Some g \<Rightarrow> strip g | None \<Rightarrow> ''N/A'')"
    by (simp add: extract_phone_numbers_def Let_def field)
  have found: "extract_phone_numbers data_row field = Some (strip (''+'' @ body))"
    if d: "?divs = d0 # d1 # ds"
      and t: "get_text '' '' d1 = pre @ label @ ws1 @ '':'' @ ws2 @ ''+'' @ body @ rest"
      and w: "\<forall>c \<in> set ws1. isspace c" "\<forall>c \<in> set ws2. isspace c"
      and b: "body \<noteq> []" "\<forall>c \<in> set body. phone_char c" "rest = [] \<or> \<not> phone_char (hd rest)"
      and l: "\<forall>i < length pre. phone_here label (drop i (get_text '' '' d1)) = None"
  proof -
    let ?s = "label @ ws1 @ '':'' @ ws2 @ ''+'' @ body @ rest"
    have here: "phone_here label ?s = Some (''+'' @ body)"
      using w b by (rule phone_here_match)
    have "\<forall>i < length pre. phone_here label (drop i (pre @ ?s)) = None"
      using l unfolding t .
    then have "re_search (phone_here label) (pre @ ?s) = Some (''+'' @ body)"
      using here by (rule re_search_leftmost)
    then show ?thesis unfolding second [OF d] t by simp
  qed
  have absent: "extract_phone_numbers data_row field = Some ''N/A''"
    if d: "?divs = d0 # d1 # ds"
      and n: "\<forall>i \<le> length (get_text '' '' d1). phone_here label (drop i (get_text '' '' d1)) = None"
  proof -
    have "re_search (phone_here label) (get_text '' '' d1) = None"
      using n by (rule re_search_None)
    then show ?thesis unfolding second [OF d] by simp
  qed
  show ?thesis using few found absent by blast
qed

lemmas dom_eval =
  select_def select_one_def get_text_def strip_def isspace_def isdecimal_def phone_char_def
  literal_def startswith_def

theorem phone_extraction_witness:
  "extract_phone_numbers
     (data_row_example ''Ann Moix''
        [Text ''Mobile : +41 79 123 45 67'', Element ''br'' [] [] [],
         Text (PRIVATE_LABEL @ '' : +41 27 111 22 33'')])
     ''mobile_phone'' = Some ''+41 79 123 45 67''"
proof -
  let ?row = "data_row_example ''Ann Moix''
        [Text ''Mobile : +41 79 123 45 67'', Element ''br'' [] [] [],
         Text (PRIVATE_LABEL @ '' : +41 27 111 22 33'')]"
  let ?d0 = "Element ''div'' [''col-md-6''] [] [Element ''span'' [''ftName''] [] [Text ''Ann Moix'']]"
  let ?d1 = "Element ''div'' [''col-md-6''] []
        [Text ''Mobile : +41 79 123 45 67'', Element ''br'' [] [] [],
         Text (PRIVATE_LABEL @ '' : +41 27 111 22 33'')]"
  have pair: "(MOBILE_LABEL, ''mobile_phone'')
      \<in> {(PRIVATE_LABEL, ''private_phone''), (MOBILE_LABEL, ''mobile_phone'')}"
    by simp
  have divs: "select (is_tag ''div'' [''col-md-6'']) ?row = ?d0 # ?d1 # []"
    by (simp add: data_row_example_def select_def PRIVATE_LABEL_def)
  have contact: "get_text '' '' ?d1 =
      [] @ MOBILE_LABEL @ '' '' @ '':'' @ '' '' @ ''+'' @ ''41 79 123 45 67 ''
        @ (PRIVATE_LABEL @ '' : +41 27 111 22 33'')"
    by (simp add: get_text_def strip_def isspace_def PRIVATE_LABEL_def MOBILE_LABEL_def)
  have sp: "\<forall>c \<in> set '' ''. isspace c" by (simp add: isspace_def)
  have body: "''41 79 123 45 67 '' \<noteq> []" "\<forall>c \<in> set ''41 79 123 45 67 ''. phone_char c"
    by (simp_all add: phone_char_def isspace_def isdecimal_def)
  have rest: "PRIVATE_LABEL @ '' : +41 27 111 22 33'' = []
      \<or> \<not> phone_char (hd (PRIVATE_LABEL @ '' : +41 27 111 22 33''))"
    by (simp add: PRIVATE_LABEL_def phone_char_def isspace_def isdecimal_def)
  have left: "\<forall>i < length ([]::string). phone_here MOBILE_LABEL (drop i (get_text '' '' ?d1)) = None"
    by simp
  have stripped: "strip (''+'' @ ''41 79 123 45 67 '') = ''+41 79 123 45 67''"
    by (simp add: strip_def isspace_def)
  show ?thesis
    using phone_extraction [OF pair, of ?row ?d0 ?d1 "[]" "[]" "'' ''" "'' ''" "''41 79 123 45 67 ''"
        "PRIVATE_LABEL @ '' : +41 27 111 22 33''"]
      divs contact sp body rest left
    unfolding stripped by blast
qed

text \<open>
  Claim C3 as stated fails: the \<open>+\<close> is not optional. A number written without it after
  the label \<open>Mobile :\<close> is not captured.
\<close>

theorem phone_without_plus_not_extracted:
  "extract_phone_numbers
     (data_row_example ''Ann Moix'' [Text ''Mobile : 079 123 45 67''])
     ''mobile_phone'' = Some ''N/A''"
  by (simp add: extract_phone_numbers_def data_row_example_def phones_of_text_def phone_here_def
      MOBILE_LABEL_def PRIVATE_LABEL_def dom_eval)

lemma openMess_here_match:
  assumes "quote \<notin> set domain" and "quote \<notin> set user" and "\<forall>c \<in> set ws. isspace c"
  shows "openMess_here (openMess_call domain ws user @ rest) = Some (domain, user)"
proof -
  let ?P = "\<lambda>c. c \<noteq> quote"
  let ?s4 = "quote # '')'' @ rest"
  let ?s3 = "user @ ?s4"
  let ?s2 = "ws @ quote # ?s3"
  let ?s1 = "domain @ quote # '','' @ ?s2"
  have s: "openMess_call domain ws user @ rest = (''openMess('' @ [quote]) @ ?s1"
    by (simp add: openMess_call_def)
  have q: "\<not> isspace quote" by (simp add: quote_def isspace_def)
  have d: "\<forall>c \<in> set domain. ?P c" and u: "\<forall>c \<in> set user. ?P c"
    using assms(1,2) by auto
  have 1: "dropWhile ?P ?s1 = (quote # '','') @ ?s2"
    using dropWhile_run [OF d, of quote] by simp
  have 2: "dropWhile isspace ?s2 = [quote] @ ?s3"
    using dropWhile_run [OF assms(3) q] by simp
  have 3: "dropWhile ?P ?s3 = (quote # '')'') @ rest"
    using dropWhile_run [OF u, of quote] by simp
  have 4: "takeWhile ?P ?s1 = domain"
    using takeWhile_run [OF d, of "quote # '','' @ ?s2"] by simp
  have 5: "takeWhile ?P ?s3 = user"
    using takeWhile_run [OF u, of ?s4] by simp
  show ?thesis
    unfolding s openMess_here_def literal_append option.case 1 2 3 4 5 ..
qed

text \<open>
  Claim C6, as amended. The extraction looks at the first link of the data block whose
  target contains \<open>javascript:openMess\<close>. Without such a link it returns \<open>"N/A"\<close>. When the
  leftmost match of the pattern in that target is \<open>openMess('domain', 'user')\<close>, the two
  arguments free of quotes and only whitespace after the comma, it returns
  \<open>user@domain\<close>. When the pattern matches nowhere in that target it returns \<open>"N/A"\<close>.
\<close>

theorem email_extraction:
  "(select_one is_openMess_link data_row = None \<longrightarrow> extract_email data_row = ''N/A'')
   \<and> (select_one is_openMess_link data_row = Some email_tag
        \<and> get_attr email_tag ''href'' [] = pre @ openMess_call domain ws user @ rest
        \<and> quote \<notin> set domain \<and> quote \<notin> set user \<and> (\<forall>c \<in> set ws. isspace c)
        \<and> (\<forall>i < length pre. openMess_here (drop i (get_attr email_tag ''href'' [])) = None)
        \<longrightarrow> extract_email data_row = user @ ''@'' @ domain)
   \<and> (select_one is_openMess_link data_row = Some email_tag
        \<and> (\<forall>i \<le> length (get_attr email_tag ''href'' []).
              openMess_here (drop i (get_attr email_tag ''href'' [])) = None)
        \<longrightarrow> extract_email data_row = ''N/A'')"
proof -
  have none: "select_one is_openMess_link data_row = None \<longrightarrow> extract_email data_row = ''N/A''"
    by (simp add: extract_email_def)
  have found: "extract_email data_row = user @ ''@'' @ domain"
    if t: "select_one is_openMess_link data_row = Some email_tag"
      and h: "get_attr email_tag ''href'' [] = pre @ openMess_call domain ws user @ rest"
      and a: "quote \<notin> set domain" "quote \<notin> set user" "\<forall>c \<in> set ws. isspace c"
      and l: "\<forall>i < length pre. openMess_here (drop i (get_attr email_tag ''href'' [])) = None"
  proof -
    have here: "openMess_here (openMess_call domain ws user @ rest) = Some (domain, user)"
      using a by (rule openMess_here_match)
    have "\<forall>i < length pre. openMess_here (drop i (pre @ openMess_call domain ws user @ rest)) = None"
      using l unfolding h .
    then have "re_search openMess_here (pre @ openMess_call domain ws user @ rest) = Some (domain, user)"
      using here by (rule re_search_leftmost)
    then show ?thesis by (simp add: extract_email_def t h)
  qed
  have unmatched: "extract_email data_row = ''N/A''"
    if t: "select_one is_openMess_link data_row = Some email_tag"
      and n: "\<forall>i \<le> length (get_attr email_tag ''href'' []).
              openMess_here (drop i (get_attr email_tag ''href'' [])) = None"
  proof -
    have "re_search openMess_here (get_attr email_tag ''href'' []) = None"
      using n by (rule re_search_None)
    then show ?thesis by (simp add: extract_email_def t)
  qed
  show ?thesis using none found unmatched by blast
qed

lemma no_match_before:
  "list_all (\<lambda>i. m (drop i s) = None) [0..<n] \<Longrightarrow> \<forall>i < n. m (drop i s) = None"
  by (simp add: list_all_iff)

theorem email_extraction_witness:
  "extract_email
     (data_row_example ''Ann Moix''
        [link_example (''javascript:'' @ openMess_call ''example.com'' [] ''jdoe'')])
   = ''jdoe@example.com''"
proof -
  let ?href = "''javascript:'' @ openMess_call ''example.com'' [] ''jdoe''"
  let ?row = "data_row_example ''Ann Moix'' [link_example ?href]"
  have tag: "select_one is_openMess_link ?row = Some (link_example ?href)"
    by (simp add: data_row_example_def link_example_def openMess_call_def select_one_def
        startswith_def)
  have href: "get_attr (link_example ?href) ''href'' [] = ''javascript:'' @ openMess_call ''example.com'' [] ''jdoe'' @ []"
    by (simp add: link_example_def)
  have q: "quote \<notin> set ''example.com''" "quote \<notin> set ''jdoe''" "\<forall>c \<in> set ([]::string). isspace c"
    by (simp_all add: quote_def)
  have "list_all (\<lambda>i. openMess_here (drop i (get_attr (link_example ?href) ''href'' [])) = None)
      [0..<length ''javascript:'']"
    by (simp add: link_example_def openMess_call_def openMess_here_def literal_def startswith_def
        upt_conv_Cons)
  then have left: "\<forall>i < length ''javascript:''.
      openMess_here (drop i (get_attr (link_example ?href) ''href'' [])) = None"
    by (rule no_match_before)
  show ?thesis
    using email_extraction [of ?row "link_example ?href" "''javascript:''" "''example.com''" "[]"
        "''jdoe''" "[]"] tag href q left
    by simp
qed

text \<open>
  Claim C6 as stated fails: a link whose target is \<open>openMess('example.com','jdoe')\<close>, with
  no \<open>javascript:\<close> before it, matches the pattern but is not selected.
\<close>

theorem email_link_without_javascript:
  "extract_email
     (data_row_example ''Ann Moix'' [link_example (openMess_call ''example.com'' [] ''jdoe'')])
   = ''N/A''"
  by (simp add: extract_email_def data_row_example_def link_example_def openMess_call_def
      select_one_def startswith_def)

lemma extract_email_nonempty: "extract_email data_row \<noteq> []"
  by (simp add: extract_email_def split: option.splits prod.splits)

lemma phone_field_nonempty:
  "(case re_search (phone_here label) t of Some g \<Rightarrow> strip g | None \<Rightarrow> ''N/A'') \<noteq> []"
proof (cases "re_search (phone_here label) t")
  case None
  then show ?thesis by simp
next
  case (Some g)
  obtain i where "phone_here label (drop i t) = Some g"
    using re_search_Some [OF Some] by blast
  then obtain body where g: "g = CHR ''+'' # body"
    using phone_here_plus [of label "drop i t" g] by blast
  have "\<not> isspace CHR ''+''" by (simp add: isspace_def)
  then have "strip (CHR ''+'' # body) \<noteq> []" by (rule strip_nonempty)
  then show ?thesis unfolding Some g by simp
qed

lemma extract_phone_numbers_fields:
  "dom (extract_phone_numbers data_row) = {''mobile_phone'', ''private_phone''}"
  "\<exists>v. extract_phone_numbers data_row ''mobile_phone'' = Some v \<and> v \<noteq> []"
  "\<exists>v. extract_phone_numbers data_row ''private_phone'' = Some v \<and> v \<noteq> []"
  by (auto simp: extract_phone_numbers_def Let_def dom_phones_of_text phones_of_text_fields
      phone_field_nonempty split: if_splits)

lemma extract_trainer_info_fields:
  assumes "extract_trainer_info heading_row following club_name = Some info"
  shows "dom info = set CSV_FIELDNAMES"
    and "info ''club'' = Some club_name"
    and "info ''role'' = Some (extract_role heading_row)"
    and "\<exists>n. info ''name'' = Some n \<and> n \<noteq> []"
    and "\<forall>field \<in> {''mobile_phone'', ''private_phone'', ''email''}.
           \<exists>v. info field = Some v \<and> v \<noteq> []"
proof -
  obtain data_row n where
    n: "extract_name data_row = Some n" "n \<noteq> []"
    and info: "info = [''club'' \<mapsto> club_name, ''role'' \<mapsto> extract_role heading_row, ''name'' \<mapsto> n,
                 ''mobile_phone'' \<mapsto> ''N/A'', ''private_phone'' \<mapsto> ''N/A'',
                 ''email'' \<mapsto> extract_email data_row] ++ extract_phone_numbers data_row"
    using assms
    by (auto simp: extract_trainer_info_def Let_def split: option.splits if_splits)
  let ?p = "extract_phone_numbers data_row"
  have d: "dom ?p = {''mobile_phone'', ''private_phone''}"
    by (rule extract_phone_numbers_fields)
  obtain m where m: "?p ''mobile_phone'' = Some m" "m \<noteq> []"
    using extract_phone_numbers_fields(2) by blast
  obtain p where p: "?p ''private_phone'' = Some p" "p \<noteq> []"
    using extract_phone_numbers_fields(3) by blast
  have outside: "\<And>k. k \<notin> {''mobile_phone'', ''private_phone''} \<Longrightarrow> ?p k = None"
    using d by blast
  show "dom info = set CSV_FIELDNAMES"
    unfolding info dom_map_add d by (auto simp: CSV_FIELDNAMES_def)
  show "info ''club'' = Some club_name"
    unfolding info by (simp add: map_add_def outside)
  show "info ''role'' = Some (extract_role heading_row)"
    unfolding info by (simp add: map_add_def outside)
  show "\<exists>n. info ''name'' = Some n \<and> n \<noteq> []"
    unfolding info using n(2) by (simp add: map_add_def outside)
  have "info ''mobile_phone'' = Some m" "info ''private_phone'' = Some p"
    unfolding info by (simp_all add: map_add_def m p)
  moreover have "info ''email'' = Some (extract_email data_row)"
    unfolding info by (simp add: map_add_def outside)
  ultimately show "\<forall>field \<in> {''mobile_phone'', ''private_phone'', ''email''}.
      \<exists>v. info field = Some v \<and> v \<noteq> []"
    using m(2) p(2) extract_email_nonempty by simp
qed

text \<open>
  What holds of every record that the extractor returns: it has exactly the six schema keys,
  its club is the club name given, its name is not empty, and its mobile phone, private
  phone and email are not empty. Its role is what \<open>_extract_role\<close> gives for the heading
  row the record was built from.
\<close>

lemma contact_record_fields:
  assumes "info \<in> set (parse_trainer_data soup_of html_content club_name)"
  shows "dom info = set CSV_FIELDNAMES
       \<and> info ''club'' = Some club_name
       \<and> (\<exists>n. info ''name'' = Some n \<and> n \<noteq> [])
       \<and> (\<forall>field \<in> {''mobile_phone'', ''private_phone'', ''email''}.
             \<exists>v. info field = Some v \<and> v \<noteq> [])
       \<and> (\<exists>heading_row following.
             (heading_row, following) \<in> set (heading_rows False (soup_of html_content))
             \<and> extract_trainer_info heading_row following club_name = Some info
             \<and> info ''role'' =
                 Some (case select_one (is_tag ''h5'' []) heading_row of
                         Some role_element \<Rightarrow> get_text [] role_element
                       | None \<Rightarrow> ''N/A''))"
proof -
  obtain heading_row following where
    h: "(heading_row, following) \<in> set (heading_rows False (soup_of html_content))"
    and e: "extract_trainer_info heading_row following club_name = Some info"
    using assms
    by (auto simp: parse_trainer_data_def List.map_filter_def split: if_splits)
  have "info ''role'' =
      Some (case select_one (is_tag ''h5'' []) heading_row of
              Some role_element \<Rightarrow> get_text [] role_element
            | None \<Rightarrow> ''N/A'')"
    using extract_trainer_info_fields(3) [OF e] by (simp add: extract_role_def)
  then show ?thesis
    using extract_trainer_info_fields(1,2,4,5) [OF e] h e by blast
qed

lemma parse_document_example:
  assumes "heading_rows True title = []"
  shows "\<exists>info. parse_trainer_data (\<lambda>html. document_example title) ''<html>'' ''FC Sion'' = [info]
           \<and> info ''role'' = Some (extract_role (heading_row_example title))"
proof -
  let ?H = "heading_row_example title"
  let ?D = "data_row_example ''Ann Moix'' [Text ''Mobile : +41 79 123 45 67'']"
  have rows: "heading_rows False (document_example title) = [(?H, [?D])]"
    using assms by (simp add: document_example_def heading_row_example_def data_row_example_def)
  have sibling: "find_next_sibling (is_tag ''div'' [''row'']) [?D] = Some ?D"
    by (simp add: find_next_sibling_def data_row_example_def)
  have person: "extract_name ?D = Some ''Ann Moix''"
    by (simp add: extract_name_def data_row_example_def select_one_def get_text_def strip_def
        isspace_def)
  obtain info where e: "extract_trainer_info ?H [?D] ''FC Sion'' = Some info"
    by (simp add: extract_trainer_info_def sibling person Let_def)
  have "parse_trainer_data (\<lambda>html. document_example title) ''<html>'' ''FC Sion'' = [info]"
    by (simp add: parse_trainer_data_def rows List.map_filter_def e)
  then show ?thesis using extract_trainer_info_fields(3) [OF e] by blast
qed

lemma contact_record_fields_example:
  "parse_trainer_data (\<lambda>html. document_example [Text ''Trainer'']) ''<html>'' ''FC Sion'' \<noteq> []
   \<and> dom (hd (parse_trainer_data (\<lambda>html. document_example [Text ''Trainer''])
               ''<html>'' ''FC Sion'')) = set CSV_FIELDNAMES
   \<and> hd (parse_trainer_data (\<lambda>html. document_example [Text ''Trainer''])
          ''<html>'' ''FC Sion'') ''club'' = Some ''FC Sion''
   \<and> (\<exists>n. hd (parse_trainer_data (\<lambda>html. document_example [Text ''Trainer''])
               ''<html>'' ''FC Sion'') ''name'' = Some n \<and> n \<noteq> [])"
proof -
  let ?records = "parse_trainer_data (\<lambda>html. document_example [Text ''Trainer'']) ''<html>'' ''FC Sion''"
  have "heading_rows True [Text ''Trainer''] = []" by simp
  then have some: "?records \<noteq> []"
    using parse_document_example [of "[Text ''Trainer'']"] by auto
  then have "hd ?records \<in> set ?records" by simp
  then show ?thesis
    using some contact_record_fields [of "hd ?records" "\<lambda>html. document_example [Text ''Trainer'']"
        "''<html>''" "''FC Sion''"]
    by blast
qed

text \<open>
  Claim C2, at the input where the code departs from it: a heading row whose \<open>h5\<close> holds
  no text. \<open>_extract_role\<close> gives \<open>"N/A"\<close> only when there is no \<open>h5\<close>, and nothing
  checks the stripped text as \<open>if not name\<close> does for the name, so the record comes out
  with the empty string as its role.
\<close>

theorem empty_role_extracted:
  "map (\<lambda>info. info ''role'')
     (parse_trainer_data (\<lambda>html. document_example []) ''<html>'' ''FC Sion'') = [Some []]"
proof -
  have "heading_rows True [] = []" by simp
  then obtain info where
    "parse_trainer_data (\<lambda>html. document_example []) ''<html>'' ''FC Sion'' = [info]"
    and "info ''role'' = Some (extract_role (heading_row_example []))"
    using parse_document_example [of "[]"] by blast
  moreover have "extract_role (heading_row_example []) = []"
    by (simp add: extract_role_def heading_row_example_def select_one_def get_text_def)
  ultimately show ?thesis by simp
qed

end
